theory Spec2Isabelle
  imports Main
begin

section \<open>Persistence layer (photos/models.py)\<close>

text \<open>
  The four models become records, one field per column that this code base declares or
  serializes. Primary keys and foreign keys are Python integers (\<open>int\<close>); timestamps are
  readings of a clock (\<open>nat\<close>). A foreign key stores the primary key of the row it points to.
\<close>

record user =
  user_id :: int
  username :: string
  email :: string
  first_name :: string
  last_name :: string
  profile_image :: "string option"
  bio :: string
  date_joined :: nat

record album =
  album_id :: int
  album_title :: string
  album_description :: string
  created_at :: nat
  updated_at :: nat
  album_owner :: int

record tag =
  tag_id :: int
  tag_name :: string

record photo =
  photo_id :: int
  photo_title :: string
  photo_description :: string
  photo_image :: string
  uploaded_at :: nat
  photo_album :: int
  photo_owner :: int

text \<open>
  The storage: one table per model, and the table behind the many-to-many field
  \<open>Photo.tags\<close>, whose rows are pairs (photo id, tag id).
\<close>

record db =
  users :: "user list"
  albums :: "album list"
  tags :: "tag list"
  photos :: "photo list"
  photo_tags :: "(int \<times> int) list"

text \<open>An automatic primary key: one more than the largest key of the table.\<close>

definition next_id :: "int list \<Rightarrow> int" where
  "next_id ids = fold max ids 0 + 1"

text \<open>\<open>photo.tags.all()\<close>: the join of the link table with the tag table.\<close>

definition tags_of :: "db \<Rightarrow> int \<Rightarrow> tag list" where
  "tags_of d pid =
     concat (map (\<lambda>(p, tid). if p = pid then filter (\<lambda>t. tag_id t = tid) (tags d) else [])
       (photo_tags d))"

text \<open>
  \<open>photo.tags.set(tags)\<close> of the object-relational mapper: the links of the photo to tags
  outside the new collection are removed, the tags of the collection that are not linked yet
  are added, the links that stay are not touched.
\<close>

definition tags_set :: "int \<Rightarrow> tag list \<Rightarrow> db \<Rightarrow> db" where
  "tags_set pid ts d =
     (let new_ids = remdups (map tag_id ts);
          old_ids = map snd (filter (\<lambda>(p, t). p = pid) (photo_tags d));
          kept = filter (\<lambda>(p, t). p \<noteq> pid \<or> t \<in> set new_ids) (photo_tags d);
          added = map (\<lambda>t. (pid, t)) (filter (\<lambda>t. t \<notin> set old_ids) new_ids)
      in d\<lparr>photo_tags := kept @ added\<rparr>)"

subsection \<open>Cascading deletes\<close>

text \<open>
  \<open>on_delete=models.CASCADE\<close> on \<open>Album.owner\<close>, \<open>Photo.album\<close> and \<open>Photo.owner\<close>: deleting
  a row collects the rows that point to it, transitively, and deletes them by primary key,
  together with the link rows of the deleted photos.
\<close>

definition delete_photos :: "int list \<Rightarrow> db \<Rightarrow> db" where
  "delete_photos pids d =
     d\<lparr>photos := filter (\<lambda>p. photo_id p \<notin> set pids) (photos d),
       photo_tags := filter (\<lambda>(p, t). p \<notin> set pids) (photo_tags d)\<rparr>"

definition delete_albums :: "int list \<Rightarrow> db \<Rightarrow> db" where
  "delete_albums aids d = d\<lparr>albums := filter (\<lambda>a. album_id a \<notin> set aids) (albums d)\<rparr>"

definition album_delete :: "int \<Rightarrow> db \<Rightarrow> db" where
  "album_delete aid d =
     (let dead_photos = map photo_id (filter (\<lambda>p. photo_album p = aid) (photos d))
      in delete_albums [aid] (delete_photos dead_photos d))"

definition photo_delete :: "int \<Rightarrow> db \<Rightarrow> db" where
  "photo_delete pid d = delete_photos [pid] d"

definition user_delete :: "int \<Rightarrow> db \<Rightarrow> db" where
  "user_delete uid d =
     (let dead_albums = map album_id (filter (\<lambda>a. album_owner a = uid) (albums d));
          dead_photos = map photo_id
            (filter (\<lambda>p. photo_owner p = uid \<or> photo_album p \<in> set dead_albums) (photos d));
          d1 = delete_albums dead_albums (delete_photos dead_photos d)
      in d1\<lparr>users := filter (\<lambda>u. user_id u \<noteq> uid) (users d1)\<rparr>)"

section \<open>Serialization layer (photos/serializers.py)\<close>

text \<open>
  \<open>UserSerializer\<close> and \<open>TagSerializer\<close> output every field of the records above, so a
  serialized user or tag is the record itself. A photo embeds its owner and its tags, an album
  its owner and its photos. The owner is looked up by primary key.
\<close>

record photo_repr =
  pr_id :: int
  pr_title :: string
  pr_description :: string
  pr_image :: string
  pr_uploaded_at :: nat
  pr_album :: int
  pr_owner :: "user option"
  pr_tags :: "tag list"

record album_repr =
  ar_id :: int
  ar_title :: string
  ar_description :: string
  ar_created_at :: nat
  ar_updated_at :: nat
  ar_owner :: "user option"
  ar_photos :: "photo_repr list"

definition get_user :: "db \<Rightarrow> int \<Rightarrow> user option" where
  "get_user d uid = find (\<lambda>u. user_id u = uid) (users d)"

definition photo_to_representation :: "db \<Rightarrow> photo \<Rightarrow> photo_repr" where
  "photo_to_representation d p =
     \<lparr>pr_id = photo_id p, pr_title = photo_title p, pr_description = photo_description p,
      pr_image = photo_image p, pr_uploaded_at = uploaded_at p, pr_album = photo_album p,
      pr_owner = get_user d (photo_owner p), pr_tags = tags_of d (photo_id p)\<rparr>"

definition album_to_representation :: "db \<Rightarrow> album \<Rightarrow> album_repr" where
  "album_to_representation d a =
     \<lparr>ar_id = album_id a, ar_title = album_title a, ar_description = album_description a,
      ar_created_at = created_at a, ar_updated_at = updated_at a,
      ar_owner = get_user d (album_owner a),
      ar_photos = map (photo_to_representation d)
        (filter (\<lambda>p. photo_album p = album_id a) (photos d))\<rparr>"

section \<open>Request-handling layer (photos/views.py)\<close>

subsection \<open>Errors, permissions, object lookup\<close>

text \<open>
  The exceptions a request can end with, and the status each is answered with: credentials
  that authentication rejects (401), no authenticated user where one is required (401), no
  such object in the queryset of the view (404), a rejected body with its field-keyed messages
  (400), and the two that no handler catches (500): a constraint of the storage violated by an
  insert, and a query parameter that is no integer of the storage.
\<close>

type_synonym errors = "(string \<times> string list) list"

datatype error =
  AuthenticationFailed | NotAuthenticated | NotFound | ValidationError errors
  | IntegrityError | OverflowError

fun status_code :: "error \<Rightarrow> nat" where
  "status_code AuthenticationFailed = 401"
| "status_code NotAuthenticated = 401"
| "status_code NotFound = 404"
| "status_code (ValidationError errs) = 400"
| "status_code IntegrityError = 500"
| "status_code OverflowError = 500"

definition http_status :: "nat \<Rightarrow> error + 'a \<Rightarrow> nat" where
  "http_status ok r = (case r of Inl e \<Rightarrow> status_code e | Inr x \<Rightarrow> ok)"

text \<open>One more message under a field of the error mapping.\<close>

fun add_error :: "string \<Rightarrow> string \<Rightarrow> errors \<Rightarrow> errors" where
  "add_error k m [] = [(k, [m])]"
| "add_error k m ((k', ms) # es) =
     (if k' = k then (k', ms @ [m]) # es else (k', ms) # add_error k m es)"

text \<open>
  \<open>request.user\<close> is given by the primary key of the authenticated user, \<open>None\<close> for a
  request without a valid token. \<open>permissions.IsAuthenticated\<close> lets the former through.
\<close>

text \<open>
  Authentication comes before the permissions of any view: a request without credentials is
  anonymous, a token that is accepted gives its user, and a token that is not accepted (wrong,
  expired) ends the request. For the views whose permission is \<open>IsAuthenticated\<close> an anonymous
  request and one with rejected credentials are both answered 401, so the actions below take
  \<open>request.user\<close>, with \<open>None\<close> for both; registration, where the two differ, takes the
  credentials.
\<close>

datatype credentials = NoCredentials | AcceptedToken int | RejectedToken

fun authenticate :: "credentials \<Rightarrow> error + int option" where
  "authenticate NoCredentials = Inr None"
| "authenticate (AcceptedToken u) = Inr (Some u)"
| "authenticate RejectedToken = Inl AuthenticationFailed"

definition IsAuthenticated :: "int option \<Rightarrow> bool" where
  "IsAuthenticated request_user = (request_user \<noteq> None)"

datatype action = List | Create | Retrieve | Update | Destroy

text \<open>\<open>UserViewSet.get_permissions\<close>: registration is public, every other action is not.\<close>

definition user_get_permissions :: "action \<Rightarrow> int option \<Rightarrow> bool" where
  "user_get_permissions act request_user =
     (if act = Create then True else IsAuthenticated request_user)"

text \<open>\<open>get_object\<close> of a generic view: the row of the queryset with the key of the URL.\<close>

definition get_object :: "('r \<Rightarrow> int) \<Rightarrow> 'r list \<Rightarrow> int \<Rightarrow> error + 'r" where
  "get_object pk_of queryset pk =
     (case find (\<lambda>r. pk_of r = pk) queryset of None \<Rightarrow> Inl NotFound | Some r \<Rightarrow> Inr r)"

text \<open>A value of the validated data, or the default of the model field when it is absent.\<close>

definition supplied :: "'a option \<Rightarrow> 'a \<Rightarrow> 'a" where
  "supplied v dflt = (case v of None \<Rightarrow> dflt | Some x \<Rightarrow> x)"

subsection \<open>Users\<close>

text \<open>
  A request body is a mapping from keys to values; each key may be absent. Only the writable
  fields of the serializer are read from it. What the field classes of the framework check
  (required, blank, length, format) and how they clean a value is a parameter \<open>fv\<close> of the
  model: it returns the messages and the cleaned values. The checks against the storage that
  the model declarations cause (a unique column, a foreign key) are written out.
\<close>

record user_body =
  ub_username :: "string option"
  ub_email :: "string option"
  ub_first_name :: "string option"
  ub_last_name :: "string option"
  ub_profile_image :: "string option option"
  ub_bio :: "string option"
  ub_password :: "string option"

record user_fields =
  uf_username :: "string option"
  uf_email :: "string option"
  uf_first_name :: "string option"
  uf_last_name :: "string option"
  uf_profile_image :: "string option option"
  uf_bio :: "string option"

definition user_writable :: "user_body \<Rightarrow> user_fields" where
  "user_writable b =
     \<lparr>uf_username = ub_username b, uf_email = ub_email b, uf_first_name = ub_first_name b,
      uf_last_name = ub_last_name b, uf_profile_image = ub_profile_image b, uf_bio = ub_bio b\<rparr>"

text \<open>The unique validator of \<open>username\<close>; on an update the instance itself is left out.\<close>

definition username_exists :: "db \<Rightarrow> int option \<Rightarrow> string \<Rightarrow> bool" where
  "username_exists d inst n =
     (\<exists>u \<in> set (users d). username u = n \<and> Some (user_id u) \<noteq> inst)"

definition user_run_validation ::
  "(user_fields \<Rightarrow> errors \<times> user_fields) \<Rightarrow> db \<Rightarrow> int option \<Rightarrow> user_body \<Rightarrow> errors + user_fields" where
  "user_run_validation fv d inst b =
     (let (errs, v) = fv (user_writable b);
          errs' = (case uf_username v of
                     None \<Rightarrow> errs
                   | Some n \<Rightarrow>
                       if username_exists d inst n
                       then add_error ''username'' ''A user with that username already exists.'' errs
                       else errs)
      in if errs' = [] then Inr v else Inl errs')"

text \<open>\<open>serializer.save()\<close> without an instance: a new row from the validated data.\<close>

definition user_serializer_create :: "nat \<Rightarrow> user_fields \<Rightarrow> db \<Rightarrow> user \<times> db" where
  "user_serializer_create now v d =
     (let u = \<lparr>user_id = next_id (map user_id (users d)),
                username = supplied (uf_username v) [],
                email = supplied (uf_email v) [],
                first_name = supplied (uf_first_name v) [],
                last_name = supplied (uf_last_name v) [],
                profile_image = supplied (uf_profile_image v) None,
                bio = supplied (uf_bio v) [],
                date_joined = now\<rparr>
      in (u, d\<lparr>users := users d @ [u]\<rparr>))"

text \<open>\<open>serializer.save()\<close> with an instance: the supplied attributes are set, the row is saved.\<close>

definition user_serializer_update :: "user \<Rightarrow> user_fields \<Rightarrow> db \<Rightarrow> user \<times> db" where
  "user_serializer_update inst v d =
     (let u = inst\<lparr>username := supplied (uf_username v) (username inst),
                    email := supplied (uf_email v) (email inst),
                    first_name := supplied (uf_first_name v) (first_name inst),
                    last_name := supplied (uf_last_name v) (last_name inst),
                    profile_image := supplied (uf_profile_image v) (profile_image inst),
                    bio := supplied (uf_bio v) (bio inst)\<rparr>
      in (u, d\<lparr>users := map (\<lambda>x. if user_id x = user_id inst then u else x) (users d)\<rparr>))"

text \<open>
  \<open>UserViewSet.create\<close>, after the authentication and the permission check of the request.
  The token library is a parameter: \<open>for_user\<close> gives the refresh token and its access token
  for a user. The result is the status with the body, and the storage after the request.
\<close>

record registration =
  reg_user :: user
  reg_refresh :: string
  reg_access :: string

definition user_create ::
  "(user \<Rightarrow> string \<times> string) \<Rightarrow> (user_fields \<Rightarrow> errors \<times> user_fields) \<Rightarrow> nat \<Rightarrow>
   credentials \<Rightarrow> user_body \<Rightarrow> db \<Rightarrow> (nat \<times> (errors + registration)) \<times> db" where
  "user_create for_user fv now creds b d =
     (case authenticate creds of
        Inl e \<Rightarrow>
          ((status_code e, Inl [(''detail'', [''Given token not valid for any token type''])]), d)
      | Inr request_user \<Rightarrow>
          if user_get_permissions Create request_user
          then (case user_run_validation fv d None b of
                  Inr v \<Rightarrow>
                    (let (u, d') = user_serializer_create now v d;
                         (refresh, access) = for_user u
                     in ((201, Inr \<lparr>reg_user = u, reg_refresh = refresh, reg_access = access\<rparr>),
                         d'))
                | Inl errs \<Rightarrow> ((400, Inl errs), d))
          else ((401, Inl [(''detail'', [''Authentication credentials were not provided.''])]),
                d))"

text \<open>The actions that \<open>UserViewSet\<close> inherits, over the queryset \<open>User.objects.all()\<close>.\<close>

definition user_list :: "int option \<Rightarrow> db \<Rightarrow> error + user list" where
  "user_list request_user d =
     (if user_get_permissions List request_user then Inr (users d) else Inl NotAuthenticated)"

definition user_retrieve :: "int option \<Rightarrow> int \<Rightarrow> db \<Rightarrow> error + user" where
  "user_retrieve request_user pk d =
     (if user_get_permissions Retrieve request_user
      then get_object user_id (users d) pk
      else Inl NotAuthenticated)"

definition user_update ::
  "(user_fields \<Rightarrow> errors \<times> user_fields) \<Rightarrow> int option \<Rightarrow> int \<Rightarrow> user_body \<Rightarrow> db \<Rightarrow>
   (error + user) \<times> db" where
  "user_update fv request_user pk b d =
     (if user_get_permissions Update request_user
      then (case get_object user_id (users d) pk of
              Inl e \<Rightarrow> (Inl e, d)
            | Inr inst \<Rightarrow>
                (case user_run_validation fv d (Some (user_id inst)) b of
                   Inl errs \<Rightarrow> (Inl (ValidationError errs), d)
                 | Inr v \<Rightarrow> (let (u, d') = user_serializer_update inst v d in (Inr u, d'))))
      else (Inl NotAuthenticated, d))"

definition user_destroy :: "int option \<Rightarrow> int \<Rightarrow> db \<Rightarrow> (error + unit) \<times> db" where
  "user_destroy request_user pk d =
     (if user_get_permissions Destroy request_user
      then (case get_object user_id (users d) pk of
              Inl e \<Rightarrow> (Inl e, d)
            | Inr inst \<Rightarrow> (Inr (), user_delete (user_id inst) d))
      else (Inl NotAuthenticated, d))"

subsection \<open>Albums\<close>

record album_body =
  ab_title :: "string option"
  ab_description :: "string option"
  ab_owner :: "int option"

record album_fields =
  af_title :: "string option"
  af_description :: "string option"

text \<open>\<open>owner\<close> is among the \<open>read_only_fields\<close> of \<open>AlbumSerializer\<close>: it is not read.\<close>

definition album_writable :: "album_body \<Rightarrow> album_fields" where
  "album_writable b = \<lparr>af_title = ab_title b, af_description = ab_description b\<rparr>"

definition album_run_validation ::
  "(album_fields \<Rightarrow> errors \<times> album_fields) \<Rightarrow> album_body \<Rightarrow> errors + album_fields" where
  "album_run_validation fv b =
     (let (errs, v) = fv (album_writable b) in if errs = [] then Inr v else Inl errs)"

text \<open>\<open>AlbumViewSet.get_queryset\<close>\<close>

definition album_get_queryset :: "int \<Rightarrow> db \<Rightarrow> album list" where
  "album_get_queryset request_user d = filter (\<lambda>a. album_owner a = request_user) (albums d)"

text \<open>
  \<open>serializer.save(owner=...)\<close> without an instance: the keyword arguments are added to the
  validated data and the row is inserted; both timestamps are the time of the insert.
\<close>

definition album_serializer_save :: "album_fields \<Rightarrow> int \<Rightarrow> nat \<Rightarrow> db \<Rightarrow> album \<times> db" where
  "album_serializer_save v owner now d =
     (let a = \<lparr>album_id = next_id (map album_id (albums d)),
                album_title = supplied (af_title v) [],
                album_description = supplied (af_description v) [],
                created_at = now, updated_at = now, album_owner = owner\<rparr>
      in (a, d\<lparr>albums := albums d @ [a]\<rparr>))"

text \<open>\<open>AlbumViewSet.perform_create\<close>\<close>

definition album_perform_create :: "int \<Rightarrow> album_fields \<Rightarrow> nat \<Rightarrow> db \<Rightarrow> album \<times> db" where
  "album_perform_create request_user v now d = album_serializer_save v request_user now d"

text \<open>The update of the serializer: supplied attributes are set, \<open>updated_at\<close> is renewed.\<close>

definition album_serializer_update :: "album \<Rightarrow> album_fields \<Rightarrow> nat \<Rightarrow> db \<Rightarrow> album \<times> db" where
  "album_serializer_update inst v now d =
     (let a = inst\<lparr>album_title := supplied (af_title v) (album_title inst),
                    album_description := supplied (af_description v) (album_description inst),
                    updated_at := now\<rparr>
      in (a, d\<lparr>albums := map (\<lambda>x. if album_id x = album_id inst then a else x) (albums d)\<rparr>))"

definition album_list :: "int option \<Rightarrow> db \<Rightarrow> error + album_repr list" where
  "album_list request_user d =
     (case request_user of
        None \<Rightarrow> Inl NotAuthenticated
      | Some u \<Rightarrow> Inr (map (album_to_representation d) (album_get_queryset u d)))"

definition album_retrieve :: "int option \<Rightarrow> int \<Rightarrow> db \<Rightarrow> error + album_repr" where
  "album_retrieve request_user pk d =
     (case request_user of
        None \<Rightarrow> Inl NotAuthenticated
      | Some u \<Rightarrow>
          (case get_object album_id (album_get_queryset u d) pk of
             Inl e \<Rightarrow> Inl e
           | Inr a \<Rightarrow> Inr (album_to_representation d a)))"

definition album_create ::
  "(album_fields \<Rightarrow> errors \<times> album_fields) \<Rightarrow> nat \<Rightarrow> int option \<Rightarrow> album_body \<Rightarrow> db \<Rightarrow>
   (error + album_repr) \<times> db" where
  "album_create fv now request_user b d =
     (case request_user of
        None \<Rightarrow> (Inl NotAuthenticated, d)
      | Some u \<Rightarrow>
          (case album_run_validation fv b of
             Inl errs \<Rightarrow> (Inl (ValidationError errs), d)
           | Inr v \<Rightarrow>
               (let (a, d') = album_perform_create u v now d
                in (Inr (album_to_representation d' a), d'))))"

definition album_update ::
  "(album_fields \<Rightarrow> errors \<times> album_fields) \<Rightarrow> nat \<Rightarrow> int option \<Rightarrow> int \<Rightarrow> album_body \<Rightarrow> db \<Rightarrow>
   (error + album_repr) \<times> db" where
  "album_update fv now request_user pk b d =
     (case request_user of
        None \<Rightarrow> (Inl NotAuthenticated, d)
      | Some u \<Rightarrow>
          (case get_object album_id (album_get_queryset u d) pk of
             Inl e \<Rightarrow> (Inl e, d)
           | Inr inst \<Rightarrow>
               (case album_run_validation fv b of
                  Inl errs \<Rightarrow> (Inl (ValidationError errs), d)
                | Inr v \<Rightarrow>
                    (let (a, d') = album_serializer_update inst v now d
                     in (Inr (album_to_representation d' a), d')))))"

definition album_destroy :: "int option \<Rightarrow> int \<Rightarrow> db \<Rightarrow> (error + unit) \<times> db" where
  "album_destroy request_user pk d =
     (case request_user of
        None \<Rightarrow> (Inl NotAuthenticated, d)
      | Some u \<Rightarrow>
          (case get_object album_id (album_get_queryset u d) pk of
             Inl e \<Rightarrow> (Inl e, d)
           | Inr inst \<Rightarrow> (Inr (), album_delete (album_id inst) d)))"

subsection \<open>Photos\<close>

record photo_body =
  pb_title :: "string option"
  pb_description :: "string option"
  pb_image :: "string option"
  pb_album :: "int option"
  pb_tag_ids :: "int list option"
  pb_owner :: "int option"

record photo_fields =
  pf_title :: "string option"
  pf_description :: "string option"
  pf_image :: "string option"
  pf_album :: "int option"
  pf_tag_ids :: "int list option"

text \<open>\<open>owner\<close> is read-only in \<open>PhotoSerializer\<close> too; \<open>tag_ids\<close> is write-only and optional.\<close>

definition photo_writable :: "photo_body \<Rightarrow> photo_fields" where
  "photo_writable b =
     \<lparr>pf_title = pb_title b, pf_description = pb_description b, pf_image = pb_image b,
      pf_album = pb_album b, pf_tag_ids = pb_tag_ids b\<rparr>"

text \<open>The field \<open>album\<close> is a primary key that has to be the key of some album.\<close>

definition photo_run_validation ::
  "(photo_fields \<Rightarrow> errors \<times> photo_fields) \<Rightarrow> db \<Rightarrow> photo_body \<Rightarrow> errors + photo_fields" where
  "photo_run_validation fv d b =
     (let (errs, v) = fv (photo_writable b);
          errs' = (case pf_album v of
                     None \<Rightarrow> errs
                   | Some a \<Rightarrow>
                       if a \<in> set (map album_id (albums d)) then errs
                       else add_error ''album'' ''Invalid pk - object does not exist.'' errs)
      in if errs' = [] then Inr v else Inl errs')"

text \<open>\<open>PhotoViewSet.get_queryset\<close>\<close>

definition photo_get_queryset :: "int \<Rightarrow> db \<Rightarrow> photo list" where
  "photo_get_queryset request_user d = filter (\<lambda>p. photo_owner p = request_user) (photos d)"

text \<open>
  The storage holds and binds signed integers of 64 bits. \<open>serializers.IntegerField()\<close> has no
  bound, so \<open>tag_ids\<close> may carry any integer.
\<close>

definition storable_int :: "int \<Rightarrow> bool" where
  "storable_int i = (- (2 ^ 63) \<le> i \<and> i < 2 ^ 63)"

text \<open>
  \<open>Tag.objects.filter(id__in=tag_ids)\<close>, as \<open>tags.set\<close> reads it before it writes anything:
  the tags whose key is listed; the query is not run for an empty list, and it raises when a
  listed integer cannot be bound.
\<close>

definition tags_filter_id_in :: "int list \<Rightarrow> db \<Rightarrow> error + tag list" where
  "tags_filter_id_in tag_ids d =
     (if list_all storable_int tag_ids
      then Inr (filter (\<lambda>t. tag_id t \<in> set tag_ids) (tags d))
      else Inl OverflowError)"

text \<open>The supplied \<open>tag_ids\<close>, if any, can all be bound.\<close>

definition tag_ids_storable :: "int list option \<Rightarrow> bool" where
  "tag_ids_storable x = (case x of None \<Rightarrow> True | Some tag_ids \<Rightarrow> list_all storable_int tag_ids)"

text \<open>
  \<open>PhotoSerializer.create\<close>, called by \<open>serializer.save(owner=...)\<close> with the owner added to
  the validated data. The column \<open>album\<close> has no default: an insert without it is refused by
  the storage. The photo row is inserted before the tags are read, and stays when that raises.
\<close>

definition photo_serializer_create ::
  "photo_fields \<Rightarrow> int \<Rightarrow> nat \<Rightarrow> db \<Rightarrow> (error + photo) \<times> db" where
  "photo_serializer_create v owner now d =
     (let tag_ids = supplied (pf_tag_ids v) []
      in case pf_album v of
           None \<Rightarrow> (Inl IntegrityError, d)
         | Some alb \<Rightarrow>
             (let photo = \<lparr>photo_id = next_id (map photo_id (photos d)),
                           photo_title = supplied (pf_title v) [],
                           photo_description = supplied (pf_description v) [],
                           photo_image = supplied (pf_image v) [],
                           uploaded_at = now, photo_album = alb, photo_owner = owner\<rparr>;
                  d1 = d\<lparr>photos := photos d @ [photo]\<rparr>
              in if tag_ids \<noteq> []
                 then (case tags_filter_id_in tag_ids d1 of
                         Inl e \<Rightarrow> (Inl e, d1)
                       | Inr ts \<Rightarrow> (Inr photo, tags_set (photo_id photo) ts d1))
                 else (Inr photo, d1)))"

text \<open>\<open>PhotoViewSet.perform_create\<close>\<close>

definition photo_perform_create ::
  "int \<Rightarrow> photo_fields \<Rightarrow> nat \<Rightarrow> db \<Rightarrow> (error + photo) \<times> db" where
  "photo_perform_create request_user v now d = photo_serializer_create v request_user now d"

text \<open>
  \<open>PhotoSerializer.update\<close>: the tags are replaced when \<open>tag_ids\<close> was supplied, then the
  update of the parent class sets the other supplied attributes and saves the row. When
  reading the tags raises, nothing has been written.
\<close>

definition photo_serializer_update ::
  "photo \<Rightarrow> photo_fields \<Rightarrow> db \<Rightarrow> (error + photo) \<times> db" where
  "photo_serializer_update inst v d =
     (case (case pf_tag_ids v of
              None \<Rightarrow> Inr d
            | Some tag_ids \<Rightarrow>
                (case tags_filter_id_in tag_ids d of
                   Inl e \<Rightarrow> Inl e
                 | Inr ts \<Rightarrow> Inr (tags_set (photo_id inst) ts d))) of
        Inl e \<Rightarrow> (Inl e, d)
      | Inr d1 \<Rightarrow>
          (let p = inst\<lparr>photo_title := supplied (pf_title v) (photo_title inst),
                        photo_description := supplied (pf_description v) (photo_description inst),
                        photo_image := supplied (pf_image v) (photo_image inst),
                        photo_album := supplied (pf_album v) (photo_album inst)\<rparr>
           in (Inr p,
               d1\<lparr>photos := map (\<lambda>x. if photo_id x = photo_id inst then p else x) (photos d1)\<rparr>)))"

definition photo_list :: "int option \<Rightarrow> db \<Rightarrow> error + photo_repr list" where
  "photo_list request_user d =
     (case request_user of
        None \<Rightarrow> Inl NotAuthenticated
      | Some u \<Rightarrow> Inr (map (photo_to_representation d) (photo_get_queryset u d)))"

definition photo_retrieve :: "int option \<Rightarrow> int \<Rightarrow> db \<Rightarrow> error + photo_repr" where
  "photo_retrieve request_user pk d =
     (case request_user of
        None \<Rightarrow> Inl NotAuthenticated
      | Some u \<Rightarrow>
          (case get_object photo_id (photo_get_queryset u d) pk of
             Inl e \<Rightarrow> Inl e
           | Inr p \<Rightarrow> Inr (photo_to_representation d p)))"

definition photo_create ::
  "(photo_fields \<Rightarrow> errors \<times> photo_fields) \<Rightarrow> nat \<Rightarrow> int option \<Rightarrow> photo_body \<Rightarrow> db \<Rightarrow>
   (error + photo_repr) \<times> db" where
  "photo_create fv now request_user b d =
     (case request_user of
        None \<Rightarrow> (Inl NotAuthenticated, d)
      | Some u \<Rightarrow>
          (case photo_run_validation fv d b of
             Inl errs \<Rightarrow> (Inl (ValidationError errs), d)
           | Inr v \<Rightarrow>
               (case photo_perform_create u v now d of
                  (Inl e, d') \<Rightarrow> (Inl e, d')
                | (Inr p, d') \<Rightarrow> (Inr (photo_to_representation d' p), d'))))"

definition photo_update ::
  "(photo_fields \<Rightarrow> errors \<times> photo_fields) \<Rightarrow> int option \<Rightarrow> int \<Rightarrow> photo_body \<Rightarrow> db \<Rightarrow>
   (error + photo_repr) \<times> db" where
  "photo_update fv request_user pk b d =
     (case request_user of
        None \<Rightarrow> (Inl NotAuthenticated, d)
      | Some u \<Rightarrow>
          (case get_object photo_id (photo_get_queryset u d) pk of
             Inl e \<Rightarrow> (Inl e, d)
           | Inr inst \<Rightarrow>
               (case photo_run_validation fv d b of
                  Inl errs \<Rightarrow> (Inl (ValidationError errs), d)
                | Inr v \<Rightarrow>
                    (case photo_serializer_update inst v d of
                       (Inl e, d') \<Rightarrow> (Inl e, d')
                     | (Inr p, d') \<Rightarrow> (Inr (photo_to_representation d' p), d')))))"

definition photo_destroy :: "int option \<Rightarrow> int \<Rightarrow> db \<Rightarrow> (error + unit) \<times> db" where
  "photo_destroy request_user pk d =
     (case request_user of
        None \<Rightarrow> (Inl NotAuthenticated, d)
      | Some u \<Rightarrow>
          (case get_object photo_id (photo_get_queryset u d) pk of
             Inl e \<Rightarrow> (Inl e, d)
           | Inr inst \<Rightarrow> (Inr (), photo_delete (photo_id inst) d)))"

text \<open>
  \<open>request.query_params.getlist(key, default)\<close>: the values given for the key in the query
  string, in order; the default when the key does not occur.
\<close>

definition getlist :: "string \<Rightarrow> string list \<Rightarrow> (string \<times> string) list \<Rightarrow> string list" where
  "getlist key dflt query_params =
     (if key \<in> set (map fst query_params)
      then map snd (filter (\<lambda>(k, v). k = key) query_params)
      else dflt)"

text \<open>
  \<open>Photo.objects.filter(tags__name__in=tags)\<close>: the photo table joined with the tags of each
  photo, one row per tag whose name is listed. \<open>distinct()\<close> merges equal rows.
\<close>

definition filter_tags_name_in :: "string list \<Rightarrow> db \<Rightarrow> photo list" where
  "filter_tags_name_in names d =
     concat (map (\<lambda>p. map (\<lambda>t. p) (filter (\<lambda>t. tag_name t \<in> set names) (tags_of d (photo_id p))))
       (photos d))"

text \<open>\<open>PhotoViewSet.search_by_tags\<close>\<close>

definition search_by_tags ::
  "int option \<Rightarrow> (string \<times> string) list \<Rightarrow> db \<Rightarrow> error + photo_repr list" where
  "search_by_tags request_user query_params d =
     (case request_user of
        None \<Rightarrow> Inl NotAuthenticated
      | Some u \<Rightarrow>
          (let tags = getlist ''tags'' [] query_params;
               photos = remdups (filter_tags_name_in tags d)
           in Inr (map (photo_to_representation d) photos)))"

subsection \<open>Well-formed storage\<close>

text \<open>
  What the storage itself enforces and the properties below rely on: primary keys are unique
  in their table, and a row of the link table points to a photo of the photo table.
\<close>

definition wf_db :: "db \<Rightarrow> bool" where
  "wf_db d =
     (distinct (map user_id (users d)) \<and> distinct (map album_id (albums d))
      \<and> distinct (map tag_id (tags d)) \<and> distinct (map photo_id (photos d))
      \<and> set (map fst (photo_tags d)) \<subseteq> set (map photo_id (photos d)))"

subsection \<open>A sample storage\<close>

text \<open>
  Two users, an album of each, three photos (the third one uploaded by the second user into
  the album of the first), two tags.
\<close>

definition alice :: user where
  "alice = \<lparr>user_id = 1, username = ''alice'', email = ''alice@example.org'', first_name = ''Alice'',
            last_name = ''A'', profile_image = None, bio = [], date_joined = 10\<rparr>"

definition bob :: user where
  "bob = \<lparr>user_id = 2, username = ''bob'', email = ''bob@example.org'', first_name = ''Bob'',
          last_name = ''B'', profile_image = None, bio = [], date_joined = 11\<rparr>"

definition album1 :: album where
  "album1 = \<lparr>album_id = 1, album_title = ''Summer'', album_description = [], created_at = 20,
             updated_at = 20, album_owner = 1\<rparr>"

definition album2 :: album where
  "album2 = \<lparr>album_id = 2, album_title = ''Winter'', album_description = [], created_at = 21,
             updated_at = 21, album_owner = 2\<rparr>"

definition tag1 :: tag where
  "tag1 = \<lparr>tag_id = 1, tag_name = ''vacation''\<rparr>"

definition tag2 :: tag where
  "tag2 = \<lparr>tag_id = 2, tag_name = ''beach''\<rparr>"

definition photo1 :: photo where
  "photo1 = \<lparr>photo_id = 1, photo_title = ''Sea'', photo_description = [],
             photo_image = ''photos/sea.jpg'', uploaded_at = 30, photo_album = 1, photo_owner = 1\<rparr>"

definition photo2 :: photo where
  "photo2 = \<lparr>photo_id = 2, photo_title = ''Snow'', photo_description = [],
             photo_image = ''photos/snow.jpg'', uploaded_at = 31, photo_album = 2, photo_owner = 2\<rparr>"

definition photo3 :: photo where
  "photo3 = \<lparr>photo_id = 3, photo_title = ''Guest'', photo_description = [],
             photo_image = ''photos/guest.jpg'', uploaded_at = 32, photo_album = 1, photo_owner = 2\<rparr>"

definition sample_db :: db where
  "sample_db = \<lparr>users = [alice, bob], albums = [album1, album2], tags = [tag1, tag2],
                photos = [photo1, photo2, photo3], photo_tags = [(1, 1), (1, 2), (2, 1)]\<rparr>"

text \<open>A field validation that accepts every body and leaves the values as they are.\<close>

definition accept_all :: "'f \<Rightarrow> errors \<times> 'f" where
  "accept_all f = ([], f)"

text \<open>Request bodies that also submit an owner, and a token library for the samples.\<close>

definition sample_album_body :: album_body where
  "sample_album_body = \<lparr>ab_title = Some ''Trip'', ab_description = None, ab_owner = Some 2\<rparr>"

definition sample_photo_body :: photo_body where
  "sample_photo_body =
     \<lparr>pb_title = Some ''Hill'', pb_description = None, pb_image = Some ''photos/hill.jpg'',
      pb_album = Some 1, pb_tag_ids = Some [1, 9999], pb_owner = Some 2\<rparr>"

definition sample_user_body :: user_body where
  "sample_user_body =
     \<lparr>ub_username = Some ''carol'', ub_email = Some ''carol@example.org'', ub_first_name = None,
      ub_last_name = None, ub_profile_image = None, ub_bio = None, ub_password = Some ''secret''\<rparr>"

definition sample_for_user :: "user \<Rightarrow> string \<times> string" where
  "sample_for_user u = (''refresh-'' @ username u, ''access-'' @ username u)"

section \<open>Properties\<close>

subsection \<open>Object lookup in a filtered queryset\<close>

lemma find_filter_None:
  "\<forall>x\<in>set xs. f x = k \<longrightarrow> \<not> P x \<Longrightarrow> find (\<lambda>r. f r = k) (filter P xs) = None"
  by (induction xs) auto

lemma get_object_hidden:
  "\<forall>x\<in>set xs. pk_of x = pk \<longrightarrow> \<not> P x \<Longrightarrow> get_object pk_of (filter P xs) pk = Inl NotFound"
  by (simp add: get_object_def find_filter_None)

lemma get_object_Inr:
  "get_object pk_of xs pk = Inr r \<Longrightarrow> r \<in> set xs \<and> pk_of r = pk"
  by (auto simp: get_object_def find_Some_iff split: option.splits)

lemma distinct_pk_eq:
  "distinct (map f xs) \<Longrightarrow> x \<in> set xs \<Longrightarrow> y \<in> set xs \<Longrightarrow> f x = f y \<Longrightarrow> x = y"
  by (meson distinct_map inj_onD)

lemma get_object_not_in_queryset:
  assumes "distinct (map pk_of xs)" and "b \<in> set xs" and "\<not> P b"
  shows "get_object pk_of (filter P xs) (pk_of b) = Inl NotFound"
proof (rule get_object_hidden, intro ballI impI)
  fix x assume "x \<in> set xs" and "pk_of x = pk_of b"
  with assms(1,2) have "x = b" by (auto dest: distinct_pk_eq)
  with assms(3) show "\<not> P x" by simp
qed

lemma get_object_absent:
  "pk \<notin> set (map pk_of xs) \<Longrightarrow> get_object pk_of (filter P xs) pk = Inl NotFound"
  by (rule get_object_hidden) auto

lemma get_object_present:
  assumes "distinct (map pk_of xs)" and "t \<in> set xs"
  shows "get_object pk_of xs (pk_of t) = Inr t"
proof -
  from assms(2) obtain r where r: "find (\<lambda>r. pk_of r = pk_of t) xs = Some r"
    by (cases "find (\<lambda>r. pk_of r = pk_of t) xs") (auto simp: find_None_iff)
  then have "r \<in> set xs" and "pk_of r = pk_of t"
    by (auto simp: find_Some_iff)
  with assms have "r = t" by (auto dest: distinct_pk_eq)
  with r show ?thesis by (simp add: get_object_def)
qed

lemmas sample_defs =
  sample_db_def alice_def bob_def album1_def album2_def tag1_def tag2_def
  photo1_def photo2_def photo3_def

lemmas sample_body_defs =
  sample_album_body_def sample_photo_body_def sample_user_body_def accept_all_def
  sample_for_user_def

subsection \<open>Owner scoping of the album and photo collections\<close>

text \<open>
  C1. With primary keys unique in their tables, for a caller \<open>u\<close>: the album list is the
  serialization of exactly the albums in storage whose owner is \<open>u\<close>, and no album of another
  owner has its key among them; likewise the photo list; a retrieve that succeeds returns a
  record of the storage with the requested key whose owner is \<open>u\<close>; and a retrieve with the key
  of a record of another owner finds nothing. (The records meant are the rows of the collection
  asked for; the photos embedded in an album are all the photos of that album.)
\<close>

theorem owner_scoped_list_and_retrieve:
  assumes da: "distinct (map album_id (albums d))" and dp: "distinct (map photo_id (photos d))"
  shows "(\<exists>qs. album_list (Some u) d = Inr (map (album_to_representation d) qs)
            \<and> set qs = {a \<in> set (albums d). album_owner a = u}
            \<and> (\<forall>b\<in>set (albums d). album_owner b \<noteq> u \<longrightarrow> album_id b \<notin> set (map album_id qs)))
       \<and> (\<exists>qs. photo_list (Some u) d = Inr (map (photo_to_representation d) qs)
            \<and> set qs = {p \<in> set (photos d). photo_owner p = u}
            \<and> (\<forall>b\<in>set (photos d). photo_owner b \<noteq> u \<longrightarrow> photo_id b \<notin> set (map photo_id qs)))
       \<and> (\<forall>pk r. album_retrieve (Some u) pk d = Inr r \<longrightarrow>
             (\<exists>a\<in>set (albums d). album_id a = pk \<and> album_owner a = u
                \<and> r = album_to_representation d a))
       \<and> (\<forall>pk r. photo_retrieve (Some u) pk d = Inr r \<longrightarrow>
             (\<exists>p\<in>set (photos d). photo_id p = pk \<and> photo_owner p = u
                \<and> r = photo_to_representation d p))
       \<and> (\<forall>b\<in>set (albums d). album_owner b \<noteq> u \<longrightarrow>
             album_retrieve (Some u) (album_id b) d = Inl NotFound)
       \<and> (\<forall>b\<in>set (photos d). photo_owner b \<noteq> u \<longrightarrow>
             photo_retrieve (Some u) (photo_id b) d = Inl NotFound)"
proof (intro conjI)
  show "\<exists>qs. album_list (Some u) d = Inr (map (album_to_representation d) qs)
            \<and> set qs = {a \<in> set (albums d). album_owner a = u}
            \<and> (\<forall>b\<in>set (albums d). album_owner b \<noteq> u \<longrightarrow> album_id b \<notin> set (map album_id qs))"
    using distinct_pk_eq[OF da]
    by (intro exI[of _ "album_get_queryset u d"]) (auto simp: album_list_def album_get_queryset_def)
  show "\<exists>qs. photo_list (Some u) d = Inr (map (photo_to_representation d) qs)
            \<and> set qs = {p \<in> set (photos d). photo_owner p = u}
            \<and> (\<forall>b\<in>set (photos d). photo_owner b \<noteq> u \<longrightarrow> photo_id b \<notin> set (map photo_id qs))"
    using distinct_pk_eq[OF dp]
    by (intro exI[of _ "photo_get_queryset u d"]) (auto simp: photo_list_def photo_get_queryset_def)
  show "\<forall>pk r. album_retrieve (Some u) pk d = Inr r \<longrightarrow>
             (\<exists>a\<in>set (albums d). album_id a = pk \<and> album_owner a = u
                \<and> r = album_to_representation d a)"
    by (auto simp: album_retrieve_def album_get_queryset_def split: sum.splits dest!: get_object_Inr)
  show "\<forall>pk r. photo_retrieve (Some u) pk d = Inr r \<longrightarrow>
             (\<exists>p\<in>set (photos d). photo_id p = pk \<and> photo_owner p = u
                \<and> r = photo_to_representation d p)"
    by (auto simp: photo_retrieve_def photo_get_queryset_def split: sum.splits dest!: get_object_Inr)
  show "\<forall>b\<in>set (albums d). album_owner b \<noteq> u \<longrightarrow>
          album_retrieve (Some u) (album_id b) d = Inl NotFound"
    by (simp add: album_retrieve_def album_get_queryset_def get_object_not_in_queryset[OF da])
  show "\<forall>b\<in>set (photos d). photo_owner b \<noteq> u \<longrightarrow>
          photo_retrieve (Some u) (photo_id b) d = Inl NotFound"
    by (simp add: photo_retrieve_def photo_get_queryset_def get_object_not_in_queryset[OF dp])
qed

theorem owner_scoped_list_and_retrieve_witness:
  "distinct (map album_id (albums sample_db)) \<and> distinct (map photo_id (photos sample_db))
   \<and> album2 \<in> set (albums sample_db) \<and> album_owner album2 \<noteq> 1
   \<and> photo3 \<in> set (photos sample_db) \<and> photo_owner photo3 \<noteq> 1
   \<and> album_retrieve (Some 1) (album_id album2) sample_db = Inl NotFound
   \<and> photo_retrieve (Some 1) (photo_id photo3) sample_db = Inl NotFound
   \<and> album_retrieve (Some 1) 1 sample_db = Inr (album_to_representation sample_db album1)"
proof -
  have da: "distinct (map album_id (albums sample_db))"
    and dp: "distinct (map photo_id (photos sample_db))"
    by (simp_all add: sample_defs)
  have m: "album2 \<in> set (albums sample_db)" "album_owner album2 \<noteq> 1"
    "photo3 \<in> set (photos sample_db)" "photo_owner photo3 \<noteq> 1"
    by (simp_all add: sample_defs)
  have r: "album_retrieve (Some 1) 1 sample_db = Inr (album_to_representation sample_db album1)"
    by (simp add: album_retrieve_def album_get_queryset_def get_object_def sample_defs)
  from owner_scoped_list_and_retrieve[OF da dp, of 1] m
  have "album_retrieve (Some 1) (album_id album2) sample_db = Inl NotFound"
    and "photo_retrieve (Some 1) (photo_id photo3) sample_db = Inl NotFound"
    by blast+
  with da dp m r show ?thesis by blast
qed

text \<open>
  The queryset of the field \<open>album\<close> of a photo is every album, so a user can upload a photo
  into an album of another user; the serialization of that album then embeds the photo.
\<close>

lemma photo_create_in_album_of_another_owner:
  "album_owner album1 = 1
   \<and> (\<exists>r d'. photo_create accept_all 40 (Some 2) sample_photo_body sample_db = (Inr r, d')
         \<and> pr_album r = album_id album1 \<and> pr_owner r = Some bob)"
  by (simp add: photo_create_def photo_run_validation_def photo_writable_def
      photo_perform_create_def photo_serializer_create_def photo_to_representation_def
      tags_filter_id_in_def storable_int_def
      get_user_def tags_set_def supplied_def Let_def sample_body_defs sample_defs)

lemma album_list_embeds_photos_of_the_album:
  "album_list (Some 1) sample_db = Inr [album_to_representation sample_db album1]
   \<and> ar_photos (album_to_representation sample_db album1)
       = [photo_to_representation sample_db photo1, photo_to_representation sample_db photo3]
   \<and> photo_owner photo3 = 2"
  by (simp add: album_list_def album_get_queryset_def album_to_representation_def sample_defs)

subsection \<open>The owner of a created record\<close>

text \<open>
  C2. For a caller \<open>u\<close>, an album or photo create request gives the same result whatever
  owner value its body carries, and when it succeeds the storage has exactly one more row, whose
  owner is \<open>u\<close> and whose serialization is the response.
\<close>

theorem create_forces_owner:
  "album_create fv now (Some u) (b\<lparr>ab_owner := x\<rparr>) d = album_create fv now (Some u) b d
   \<and> (\<forall>r d'. album_create fv now (Some u) b d = (Inr r, d') \<longrightarrow>
         (\<exists>a. albums d' = albums d @ [a] \<and> album_owner a = u \<and> r = album_to_representation d' a))
   \<and> photo_create fv' now (Some u) (pb\<lparr>pb_owner := y\<rparr>) d = photo_create fv' now (Some u) pb d
   \<and> (\<forall>r d'. photo_create fv' now (Some u) pb d = (Inr r, d') \<longrightarrow>
         (\<exists>p. photos d' = photos d @ [p] \<and> photo_owner p = u \<and> r = photo_to_representation d' p))"
proof (intro conjI allI impI)
  show "album_create fv now (Some u) (b\<lparr>ab_owner := x\<rparr>) d = album_create fv now (Some u) b d"
    by (simp add: album_create_def album_run_validation_def album_writable_def)
  show "photo_create fv' now (Some u) (pb\<lparr>pb_owner := y\<rparr>) d = photo_create fv' now (Some u) pb d"
    by (simp add: photo_create_def photo_run_validation_def photo_writable_def)
next
  fix r d' assume "album_create fv now (Some u) b d = (Inr r, d')"
  then show "\<exists>a. albums d' = albums d @ [a] \<and> album_owner a = u \<and> r = album_to_representation d' a"
    by (auto simp: album_create_def album_perform_create_def album_serializer_save_def Let_def
        split: sum.splits)
next
  fix r d' assume "photo_create fv' now (Some u) pb d = (Inr r, d')"
  then show "\<exists>p. photos d' = photos d @ [p] \<and> photo_owner p = u \<and> r = photo_to_representation d' p"
    by (auto simp: photo_create_def photo_perform_create_def photo_serializer_create_def Let_def
        tags_set_def tags_filter_id_in_def split: sum.splits option.splits if_splits)
qed

theorem create_forces_owner_witness:
  "ab_owner sample_album_body = Some 2 \<and> pb_owner sample_photo_body = Some 2
   \<and> (\<exists>r d' a. album_create accept_all 40 (Some 1) sample_album_body sample_db = (Inr r, d')
         \<and> albums d' = albums sample_db @ [a] \<and> album_owner a = 1)
   \<and> (\<exists>r d' p. photo_create accept_all 40 (Some 1) sample_photo_body sample_db = (Inr r, d')
         \<and> photos d' = photos sample_db @ [p] \<and> photo_owner p = 1)"
proof -
  obtain r d' where e: "album_create accept_all 40 (Some 1) sample_album_body sample_db = (Inr r, d')"
    by (simp add: album_create_def album_run_validation_def album_writable_def
        album_perform_create_def album_serializer_save_def sample_body_defs Let_def)
  obtain r2 d2 where e2: "photo_create accept_all 40 (Some 1) sample_photo_body sample_db = (Inr r2, d2)"
    by (simp add: photo_create_def photo_run_validation_def photo_writable_def
        photo_perform_create_def photo_serializer_create_def sample_body_defs sample_defs
        tags_filter_id_in_def storable_int_def supplied_def Let_def)
  from create_forces_owner[where fv = accept_all and now = 40 and u = 1 and b = sample_album_body
      and d = sample_db and fv' = accept_all and pb = sample_photo_body] e e2
  have "\<exists>a. albums d' = albums sample_db @ [a] \<and> album_owner a = 1"
    and "\<exists>p. photos d2 = photos sample_db @ [p] \<and> photo_owner p = 1"
    by blast+
  with e e2 show ?thesis
    by (auto simp: sample_body_defs)
qed

subsection \<open>Tags of a photo\<close>

lemma set_tags_of:
  "set (tags_of d pid) = {t \<in> set (tags d). (pid, tag_id t) \<in> set (photo_tags d)}"
  by (auto simp: tags_of_def split: if_splits)

lemma tags_of_cong:
  "tags d' = tags d \<Longrightarrow> photo_tags d' = photo_tags d \<Longrightarrow> tags_of d' pid = tags_of d pid"
  by (simp add: tags_of_def cong: if_cong)

lemma photo_tags_tags_set:
  "set (photo_tags (tags_set pid ts d)) =
     {(p, t) \<in> set (photo_tags d). p \<noteq> pid} \<union> {(pid, t) | t. t \<in> tag_id ` set ts}"
  by (auto simp: tags_set_def Let_def)

lemma tags_tags_set: "tags (tags_set pid ts d) = tags d"
  by (simp add: tags_set_def Let_def)

lemma photos_tags_set: "photos (tags_set pid ts d) = photos d"
  by (simp add: tags_set_def Let_def)

lemma set_tags_of_tags_set:
  "set (tags_of (tags_set pid ts d) pid) = {t \<in> set (tags d). tag_id t \<in> tag_id ` set ts}"
  by (auto simp: set_tags_of photo_tags_tags_set tags_tags_set)

lemma set_tags_of_tags_set_filter:
  "set (tags_of (tags_set pid (filter (\<lambda>t. tag_id t \<in> set tids) (tags d)) d) pid) =
     {t \<in> set (tags d). tag_id t \<in> set tids}"
  by (auto simp: set_tags_of_tags_set)

lemma tags_of_tags_set_Nil: "tags_of (tags_set pid [] d) pid = []"
  by (auto simp: tags_of_def tags_set_def)

text \<open>Replacing the tags of one photo leaves the tags of every other photo as they were.\<close>

lemma concat_links_filter:
  "concat (map (\<lambda>(p, tid). if p = q then F tid else []) l)
     = concat (map (\<lambda>(p, tid). F tid) (filter (\<lambda>(p, t). p = q) l))"
  by (induction l) auto

lemma links_tags_set_other:
  assumes "q \<noteq> pid"
  shows "filter (\<lambda>(p, t). p = q) (photo_tags (tags_set pid ts d))
           = filter (\<lambda>(p, t). p = q) (photo_tags d)"
proof -
  have "filter (\<lambda>(p, t). p = q) (filter (\<lambda>(p, t). p \<noteq> pid \<or> t \<in> k) l)
          = filter (\<lambda>(p, t). p = q) l" for k :: "int set" and l
    using assms by (induction l) auto
  moreover have "filter (\<lambda>(p, t). p = q) (map (Pair pid) l) = []" for l :: "int list"
    using assms by (induction l) auto
  ultimately show ?thesis
    by (simp add: tags_set_def Let_def)
qed

lemma tags_of_tags_set_other:
  "q \<noteq> pid \<Longrightarrow> tags_of (tags_set pid ts d) q = tags_of d q"
  by (simp add: tags_of_def concat_links_filter links_tags_set_other tags_tags_set)

text \<open>An automatic key is not a key of the table yet.\<close>

lemma fold_max_ge: "(a::int) \<le> fold max xs a"
  by (induction xs arbitrary: a) (auto intro: order_trans[OF max.cobounded2])

lemma fold_max_mem: "x \<in> set xs \<Longrightarrow> (x::int) \<le> fold max xs a"
proof (induction xs arbitrary: a)
  case Nil then show ?case by simp
next
  case (Cons y ys)
  show ?case
  proof (cases "x = y")
    case True
    have "x \<le> max y a" using True by simp
    also have "\<dots> \<le> fold max ys (max y a)" by (rule fold_max_ge)
    finally show ?thesis by simp
  next
    case False
    with Cons show ?thesis by simp
  qed
qed

lemma next_id_fresh: "next_id ids \<notin> set ids"
  using fold_max_mem[of "next_id ids" ids 0] by (auto simp: next_id_def)

subsection \<open>Reading the tags by key\<close>

lemma tags_filter_id_in_storable:
  "list_all storable_int tag_ids \<Longrightarrow>
     tags_filter_id_in tag_ids d = Inr (filter (\<lambda>t. tag_id t \<in> set tag_ids) (tags d))"
  by (simp add: tags_filter_id_in_def)

lemma tags_filter_id_in_overflow:
  "\<not> list_all storable_int tag_ids \<Longrightarrow> tags_filter_id_in tag_ids d = Inl OverflowError"
  by (simp add: tags_filter_id_in_def)

lemma photo_serializer_update_storable:
  assumes "tag_ids_storable (pf_tag_ids v)"
  shows "photo_serializer_update inst v d =
     (let d1 = (case pf_tag_ids v of
                  None \<Rightarrow> d
                | Some tag_ids \<Rightarrow>
                    tags_set (photo_id inst) (filter (\<lambda>t. tag_id t \<in> set tag_ids) (tags d)) d);
          p = inst\<lparr>photo_title := supplied (pf_title v) (photo_title inst),
                    photo_description := supplied (pf_description v) (photo_description inst),
                    photo_image := supplied (pf_image v) (photo_image inst),
                    photo_album := supplied (pf_album v) (photo_album inst)\<rparr>
      in (Inr p, d1\<lparr>photos := map (\<lambda>x. if photo_id x = photo_id inst then p else x) (photos d)\<rparr>))"
  using assms
  by (simp add: photo_serializer_update_def tag_ids_storable_def tags_filter_id_in_storable
      photos_tags_set Let_def split: option.splits)

lemma photo_serializer_update_overflow:
  "\<not> tag_ids_storable (pf_tag_ids v) \<Longrightarrow> photo_serializer_update inst v d = (Inl OverflowError, d)"
  by (auto simp: photo_serializer_update_def tag_ids_storable_def tags_filter_id_in_overflow
      split: option.splits)

subsection \<open>An update with and without \<open>tag_ids\<close>\<close>

text \<open>
  C9. In \<open>PhotoSerializer.update\<close>: with \<open>tag_ids\<close> the empty list the update succeeds and the
  photo has no tag afterwards; with \<open>tag_ids\<close> absent it succeeds and the link table, and so
  the tags of the photo, stay as they were. The returned photo and the photo table are the same
  for every two values of \<open>tag_ids\<close> that can be bound, the empty list and the absent key among
  them: every other supplied field is set, every absent one is kept, and the row with the key
  of the instance is replaced. (A list with an integer that cannot be bound makes the update
  raise before anything is written.)
\<close>

theorem update_tag_ids_empty_or_omitted:
  "(pf_tag_ids v = Some [] \<longrightarrow>
      (\<exists>p d'. photo_serializer_update inst v d = (Inr p, d')
         \<and> tags_of d' (photo_id inst) = []))
   \<and> (pf_tag_ids v = None \<longrightarrow>
      (\<exists>p d'. photo_serializer_update inst v d = (Inr p, d')
         \<and> photo_tags d' = photo_tags d
         \<and> tags_of d' (photo_id inst) = tags_of d (photo_id inst)))
   \<and> (tag_ids_storable (pf_tag_ids v) \<and> tag_ids_storable x \<longrightarrow>
        fst (photo_serializer_update inst (v\<lparr>pf_tag_ids := x\<rparr>) d)
          = fst (photo_serializer_update inst v d)
        \<and> photos (snd (photo_serializer_update inst (v\<lparr>pf_tag_ids := x\<rparr>) d))
            = photos (snd (photo_serializer_update inst v d)))
   \<and> (tag_ids_storable (pf_tag_ids v) \<longrightarrow>
        (\<exists>p. fst (photo_serializer_update inst v d) = Inr p
           \<and> photo_title p = supplied (pf_title v) (photo_title inst)
           \<and> photo_description p = supplied (pf_description v) (photo_description inst)
           \<and> photo_image p = supplied (pf_image v) (photo_image inst)
           \<and> photo_album p = supplied (pf_album v) (photo_album inst)
           \<and> photos (snd (photo_serializer_update inst v d))
               = map (\<lambda>x. if photo_id x = photo_id inst then p else x) (photos d)))
   \<and> (\<not> tag_ids_storable (pf_tag_ids v) \<longrightarrow>
        photo_serializer_update inst v d = (Inl OverflowError, d))"
proof (intro conjI impI)
  assume a: "pf_tag_ids v = Some []"
  then have s: "tag_ids_storable (pf_tag_ids v)" by (simp add: tag_ids_storable_def)
  obtain p d' where e: "photo_serializer_update inst v d = (Inr p, d')"
    using photo_serializer_update_storable[OF s, of inst d] by (simp add: Let_def)
  have "tags_of d' (photo_id inst) = tags_of (tags_set (photo_id inst) [] d) (photo_id inst)"
    using e a by (intro tags_of_cong)
      (auto simp: photo_serializer_update_storable[OF s] Let_def tags_tags_set)
  then have "tags_of d' (photo_id inst) = []"
    by (simp add: tags_of_tags_set_Nil)
  with e show "\<exists>p d'. photo_serializer_update inst v d = (Inr p, d')
         \<and> tags_of d' (photo_id inst) = []"
    by blast
next
  assume a: "pf_tag_ids v = None"
  then have s: "tag_ids_storable (pf_tag_ids v)" by (simp add: tag_ids_storable_def)
  obtain p d' where e: "photo_serializer_update inst v d = (Inr p, d')"
    using photo_serializer_update_storable[OF s, of inst d] by (simp add: Let_def)
  from e a have l: "photo_tags d' = photo_tags d" and t: "tags d' = tags d"
    by (auto simp: photo_serializer_update_storable[OF s] Let_def)
  from t l have "tags_of d' (photo_id inst) = tags_of d (photo_id inst)"
    by (rule tags_of_cong)
  with e l show "\<exists>p d'. photo_serializer_update inst v d = (Inr p, d')
         \<and> photo_tags d' = photo_tags d
         \<and> tags_of d' (photo_id inst) = tags_of d (photo_id inst)"
    by blast
next
  assume a: "tag_ids_storable (pf_tag_ids v) \<and> tag_ids_storable x"
  then have sx: "tag_ids_storable (pf_tag_ids (v\<lparr>pf_tag_ids := x\<rparr>))" by simp
  from a have sv: "tag_ids_storable (pf_tag_ids v)" by simp
  show "fst (photo_serializer_update inst (v\<lparr>pf_tag_ids := x\<rparr>) d)
          = fst (photo_serializer_update inst v d)"
    by (simp add: photo_serializer_update_storable[OF sx] photo_serializer_update_storable[OF sv]
        Let_def)
  show "photos (snd (photo_serializer_update inst (v\<lparr>pf_tag_ids := x\<rparr>) d))
            = photos (snd (photo_serializer_update inst v d))"
    by (simp add: photo_serializer_update_storable[OF sx] photo_serializer_update_storable[OF sv]
        Let_def)
next
  assume s: "tag_ids_storable (pf_tag_ids v)"
  show "\<exists>p. fst (photo_serializer_update inst v d) = Inr p
           \<and> photo_title p = supplied (pf_title v) (photo_title inst)
           \<and> photo_description p = supplied (pf_description v) (photo_description inst)
           \<and> photo_image p = supplied (pf_image v) (photo_image inst)
           \<and> photo_album p = supplied (pf_album v) (photo_album inst)
           \<and> photos (snd (photo_serializer_update inst v d))
               = map (\<lambda>x. if photo_id x = photo_id inst then p else x) (photos d)"
    by (simp add: photo_serializer_update_storable[OF s] Let_def)
next
  assume "\<not> tag_ids_storable (pf_tag_ids v)"
  then show "photo_serializer_update inst v d = (Inl OverflowError, d)"
    by (rule photo_serializer_update_overflow)
qed

theorem update_tag_ids_empty_or_omitted_witness:
  "tags_of sample_db (photo_id photo1) = [tag1, tag2]
   \<and> (\<exists>p d'. photo_serializer_update photo1
        \<lparr>pf_title = Some ''Ocean'', pf_description = None, pf_image = None, pf_album = None,
         pf_tag_ids = Some []\<rparr> sample_db = (Inr p, d')
        \<and> tags_of d' (photo_id photo1) = [] \<and> photo_title p = ''Ocean'')
   \<and> (\<exists>p d'. photo_serializer_update photo1
        \<lparr>pf_title = Some ''Ocean'', pf_description = None, pf_image = None, pf_album = None,
         pf_tag_ids = None\<rparr> sample_db = (Inr p, d')
        \<and> tags_of d' (photo_id photo1) = [tag1, tag2] \<and> photo_title p = ''Ocean'')"
proof -
  let ?v = "\<lparr>pf_title = Some ''Ocean'', pf_description = None, pf_image = None, pf_album = None,
         pf_tag_ids = Some []\<rparr>"
  let ?w = "\<lparr>pf_title = Some ''Ocean'', pf_description = None, pf_image = None, pf_album = None,
         pf_tag_ids = None\<rparr>"
  have t: "tags_of sample_db (photo_id photo1) = [tag1, tag2]"
    by (simp add: tags_of_def sample_defs)
  have h: "pf_tag_ids ?v = Some []" "pf_tag_ids ?w = None"
    "tag_ids_storable (pf_tag_ids ?v)" "tag_ids_storable (pf_tag_ids ?w)"
    "supplied (pf_title ?v) (photo_title photo1) = ''Ocean''"
    "supplied (pf_title ?w) (photo_title photo1) = ''Ocean''"
    by (simp_all add: tag_ids_storable_def supplied_def)
  from update_tag_ids_empty_or_omitted[of ?v photo1 sample_db] h
  obtain p d' where 1: "photo_serializer_update photo1 ?v sample_db = (Inr p, d')"
    "tags_of d' (photo_id photo1) = []" "photo_title p = ''Ocean''"
    by (metis fst_conv sum.inject(2))
  from update_tag_ids_empty_or_omitted[of ?w photo1 sample_db] h t
  obtain q d2 where 2: "photo_serializer_update photo1 ?w sample_db = (Inr q, d2)"
    "tags_of d2 (photo_id photo1) = [tag1, tag2]" "photo_title q = ''Ocean''"
    by (metis fst_conv sum.inject(2))
  from t 1 2 show ?thesis by blast
qed

subsection \<open>Search without a \<open>tags\<close> parameter\<close>

lemma getlist_absent: "key \<notin> fst ` set qp \<Longrightarrow> getlist key dflt qp = dflt"
  by (simp add: getlist_def)

text \<open>
  C10. When the query string has no \<open>tags\<close> parameter, the search of an authenticated caller
  answers with the empty list.
\<close>

theorem search_without_tags_is_empty:
  "''tags'' \<notin> fst ` set query_params \<Longrightarrow> search_by_tags (Some u) query_params d = Inr []"
  by (simp add: search_by_tags_def getlist_absent filter_tags_name_in_def)

theorem search_without_tags_is_empty_witness:
  "''tags'' \<notin> fst ` set [(''page'', ''2'')]
   \<and> search_by_tags (Some 1) [(''page'', ''2'')] sample_db = Inr []
   \<and> photos sample_db \<noteq> []"
  using search_without_tags_is_empty[of "[(''page'', ''2'')]" 1 sample_db]
  by (simp add: sample_db_def)

subsection \<open>Tag-based search\<close>

lemma set_getlist: "set (getlist key [] qp) = {v. (key, v) \<in> set qp}"
  by (force simp: getlist_def image_iff)

lemma set_filter_tags_name_in:
  "set (filter_tags_name_in names d) =
     {p \<in> set (photos d). \<exists>t\<in>set (tags_of d (photo_id p)). tag_name t \<in> set names}"
  by (auto simp: filter_tags_name_in_def)

text \<open>
  C3. For an authenticated caller, the search answers with the serialization of a list of
  photos without repetition, which holds exactly the photos in storage (of any owner) that have
  at least one tag whose name is a value of the \<open>tags\<close> parameter; with unique primary keys no
  key occurs twice in it.
\<close>

theorem search_by_tags_any_tag_distinct:
  "\<exists>qs. search_by_tags (Some u) query_params d = Inr (map (photo_to_representation d) qs)
      \<and> distinct qs
      \<and> set qs = {p \<in> set (photos d).
                   \<exists>t\<in>set (tags_of d (photo_id p)). (''tags'', tag_name t) \<in> set query_params}
      \<and> (distinct (map photo_id (photos d)) \<longrightarrow> distinct (map photo_id qs))"
proof (intro exI[of _ "remdups (filter_tags_name_in (getlist ''tags'' [] query_params) d)"] conjI)
  let ?qs = "remdups (filter_tags_name_in (getlist ''tags'' [] query_params) d)"
  show "search_by_tags (Some u) query_params d = Inr (map (photo_to_representation d) ?qs)"
    by (simp add: search_by_tags_def)
  show "distinct ?qs" by simp
  show s: "set ?qs = {p \<in> set (photos d).
             \<exists>t\<in>set (tags_of d (photo_id p)). (''tags'', tag_name t) \<in> set query_params}"
    by (simp add: set_filter_tags_name_in set_getlist)
  show "distinct (map photo_id (photos d)) \<longrightarrow> distinct (map photo_id ?qs)"
  proof
    assume dp: "distinct (map photo_id (photos d))"
    then have "inj_on photo_id (set (photos d))" by (simp add: distinct_map)
    moreover have "set ?qs \<subseteq> set (photos d)" using s by blast
    ultimately have "inj_on photo_id (set ?qs)" by (rule inj_on_subset)
    then show "distinct (map photo_id ?qs)" by (simp add: distinct_map)
  qed
qed

theorem search_by_tags_any_tag_distinct_witness:
  "distinct (map photo_id (photos sample_db))
   \<and> tags_of sample_db (photo_id photo1) = [tag1, tag2]
   \<and> photo_owner photo1 \<noteq> 2
   \<and> search_by_tags (Some 2) [(''tags'', ''vacation''), (''tags'', ''beach'')] sample_db
       = Inr (map (photo_to_representation sample_db) [photo1, photo2])
   \<and> (\<exists>qs. map (photo_to_representation sample_db) [photo1, photo2]
              = map (photo_to_representation sample_db) qs
         \<and> set qs = {photo1, photo2} \<and> distinct (map photo_id qs))"
proof -
  let ?qp = "[(''tags'', ''vacation''), (''tags'', ''beach'')]"
  have dp: "distinct (map photo_id (photos sample_db))"
    by (simp add: sample_defs)
  have t: "tags_of sample_db (photo_id photo1) = [tag1, tag2]" "photo_owner photo1 \<noteq> 2"
    by (simp_all add: tags_of_def sample_defs)
  have g: "getlist ''tags'' [] ?qp = [''vacation'', ''beach'']"
    by (simp add: getlist_def)
  have f: "filter_tags_name_in [''vacation'', ''beach''] sample_db = [photo1, photo1, photo2]"
    by (simp add: filter_tags_name_in_def tags_of_def sample_defs)
  have ne: "photo1 \<noteq> photo2"
    by (simp add: photo1_def photo2_def)
  have e: "search_by_tags (Some 2) ?qp sample_db
             = Inr (map (photo_to_representation sample_db) [photo1, photo2])"
    by (simp add: search_by_tags_def g f ne)
  have "{p \<in> set (photos sample_db).
             \<exists>t\<in>set (tags_of sample_db (photo_id p)). (''tags'', tag_name t) \<in> set ?qp}
           = set (filter_tags_name_in (getlist ''tags'' [] ?qp) sample_db)"
    by (simp only: set_filter_tags_name_in set_getlist mem_Collect_eq)
  also have "\<dots> = {photo1, photo2}"
    by (simp only: g f) simp
  finally have s: "{p \<in> set (photos sample_db).
             \<exists>t\<in>set (tags_of sample_db (photo_id p)). (''tags'', tag_name t) \<in> set ?qp}
           = {photo1, photo2}" .
  from search_by_tags_any_tag_distinct[of 2 ?qp sample_db] dp
  obtain qs where q: "search_by_tags (Some 2) ?qp sample_db = Inr (map (photo_to_representation sample_db) qs)"
    "set qs = {p \<in> set (photos sample_db).
             \<exists>t\<in>set (tags_of sample_db (photo_id p)). (''tags'', tag_name t) \<in> set ?qp}"
    "distinct (map photo_id qs)"
    by blast
  from q(1) e have "map (photo_to_representation sample_db) [photo1, photo2]
              = map (photo_to_representation sample_db) qs"
    by (simp only: sum.inject)
  moreover from q(2) s have "set qs = {photo1, photo2}" by (simp only:)
  ultimately have "\<exists>qs. map (photo_to_representation sample_db) [photo1, photo2]
              = map (photo_to_representation sample_db) qs
         \<and> set qs = {photo1, photo2} \<and> distinct (map photo_id qs)"
    using q(3) by blast
  with dp t e show ?thesis by blast
qed

subsection \<open>Tag identifiers on create and update\<close>

lemma serializer_create_tags:
  assumes links: "\<forall>(p, t)\<in>set (photo_tags d). p \<in> set (map photo_id (photos d))"
    and a: "pf_album v = Some alb" "pf_tag_ids v = Some tag_ids"
    and rng: "list_all storable_int tag_ids"
  shows "\<exists>p d'. photo_serializer_create v owner now d = (Inr p, d')
              \<and> set (tags_of d' (photo_id p)) = {t \<in> set (tags d). tag_id t \<in> set tag_ids}"
proof -
  let ?pid = "next_id (map photo_id (photos d))"
  have fresh: "\<And>t. (?pid, t) \<notin> set (photo_tags d)"
    using links next_id_fresh[of "map photo_id (photos d)"] by fastforce
  show ?thesis
  proof (cases "tag_ids = []")
    case True
    with a fresh show ?thesis
      by (simp add: photo_serializer_create_def supplied_def Let_def set_tags_of)
  next
    case False
    let ?d1 = "d\<lparr>photos := photos d @ [\<lparr>photo_id = ?pid, photo_title = supplied (pf_title v) [],
         photo_description = supplied (pf_description v) [], photo_image = supplied (pf_image v) [],
         uploaded_at = now, photo_album = alb, photo_owner = owner\<rparr>]\<rparr>"
    have "set (tags_of (tags_set ?pid (filter (\<lambda>t. tag_id t \<in> set tag_ids) (tags ?d1)) ?d1) ?pid)
          = {t \<in> set (tags ?d1). tag_id t \<in> set tag_ids}"
      by (rule set_tags_of_tags_set_filter)
    with a False rng show ?thesis
      by (simp add: photo_serializer_create_def supplied_def Let_def tags_filter_id_in_storable)
  qed
qed

lemma serializer_update_tags:
  assumes a: "pf_tag_ids v = Some tag_ids" and rng: "list_all storable_int tag_ids"
  shows "\<exists>p d'. photo_serializer_update inst v d = (Inr p, d') \<and> photo_id p = photo_id inst
              \<and> set (tags_of d' (photo_id p)) = {t \<in> set (tags d). tag_id t \<in> set tag_ids}"
proof -
  have s: "tag_ids_storable (pf_tag_ids v)"
    using a rng by (simp add: tag_ids_storable_def)
  have "set (tags_of (tags_set (photo_id inst) (filter (\<lambda>t. tag_id t \<in> set tag_ids) (tags d)) d)
          (photo_id inst)) = {t \<in> set (tags d). tag_id t \<in> set tag_ids}"
    by (rule set_tags_of_tags_set_filter)
  with a show ?thesis
    by (simp add: photo_serializer_update_storable[OF s] Let_def set_tags_of tags_tags_set)
qed

lemma pr_tags_representation: "pr_tags (photo_to_representation d p) = tags_of d (photo_id p)"
  by (simp add: photo_to_representation_def)

lemma pr_id_representation: "pr_id (photo_to_representation d p) = photo_id p"
  by (simp add: photo_to_representation_def)

text \<open>
  Identifiers that can be bound: let every row of the link table point to a photo in storage.
  When the validated data carry the list \<open>tag_ids\<close>, the create and the update of the serializer
  succeed, and in the storage they leave the tags of the photo are exactly the tags whose key is
  in the list; keys of no tag add nothing. A create or update request whose body passes
  validation stores just that and answers with these tags.
\<close>

lemma tag_ids_in_range_filtered:
  assumes links: "\<forall>(p, t)\<in>set (photo_tags d). p \<in> set (map photo_id (photos d))"
    and rng: "list_all storable_int tag_ids"
  shows "(pf_album v = Some alb \<and> pf_tag_ids v = Some tag_ids \<longrightarrow>
           (\<exists>p d'. photo_serializer_create v owner now d = (Inr p, d')
              \<and> set (tags_of d' (photo_id p)) = {t \<in> set (tags d). tag_id t \<in> set tag_ids}))
       \<and> (pf_tag_ids v = Some tag_ids \<longrightarrow>
           (\<exists>p d'. photo_serializer_update inst v d = (Inr p, d') \<and> photo_id p = photo_id inst
              \<and> set (tags_of d' (photo_id p)) = {t \<in> set (tags d). tag_id t \<in> set tag_ids}))
       \<and> (photo_run_validation fv d b = Inr v \<and> pf_album v = Some alb
            \<and> pf_tag_ids v = Some tag_ids \<longrightarrow>
           (\<exists>p d'. photo_create fv now (Some u) b d = (Inr (photo_to_representation d' p), d')
              \<and> photo_serializer_create v u now d = (Inr p, d')
              \<and> set (pr_tags (photo_to_representation d' p))
                   = {t \<in> set (tags d). tag_id t \<in> set tag_ids}
              \<and> set (tags_of d' (photo_id p)) = {t \<in> set (tags d). tag_id t \<in> set tag_ids}))
       \<and> (get_object photo_id (photo_get_queryset u d) pk = Inr inst
            \<and> photo_run_validation fv d b = Inr v \<and> pf_tag_ids v = Some tag_ids \<longrightarrow>
           (\<exists>p d'. photo_update fv (Some u) pk b d = (Inr (photo_to_representation d' p), d')
              \<and> photo_serializer_update inst v d = (Inr p, d') \<and> photo_id p = photo_id inst
              \<and> set (pr_tags (photo_to_representation d' p))
                   = {t \<in> set (tags d). tag_id t \<in> set tag_ids}
              \<and> set (tags_of d' (photo_id inst)) = {t \<in> set (tags d). tag_id t \<in> set tag_ids}))"
proof (intro conjI impI)
  assume "pf_album v = Some alb \<and> pf_tag_ids v = Some tag_ids"
  then show "\<exists>p d'. photo_serializer_create v owner now d = (Inr p, d')
              \<and> set (tags_of d' (photo_id p)) = {t \<in> set (tags d). tag_id t \<in> set tag_ids}"
    using serializer_create_tags[OF links _ _ rng] by blast
next
  assume "pf_tag_ids v = Some tag_ids"
  then show "\<exists>p d'. photo_serializer_update inst v d = (Inr p, d') \<and> photo_id p = photo_id inst
              \<and> set (tags_of d' (photo_id p)) = {t \<in> set (tags d). tag_id t \<in> set tag_ids}"
    using rng by (rule serializer_update_tags)
next
  assume a: "photo_run_validation fv d b = Inr v \<and> pf_album v = Some alb
            \<and> pf_tag_ids v = Some tag_ids"
  then obtain p d' where c: "photo_serializer_create v u now d = (Inr p, d')"
    and s: "set (tags_of d' (photo_id p)) = {t \<in> set (tags d). tag_id t \<in> set tag_ids}"
    using serializer_create_tags[OF links _ _ rng, of v alb u now] by blast
  from a c have "photo_create fv now (Some u) b d = (Inr (photo_to_representation d' p), d')"
    by (simp add: photo_create_def photo_perform_create_def)
  with c s show "\<exists>p d'. photo_create fv now (Some u) b d = (Inr (photo_to_representation d' p), d')
              \<and> photo_serializer_create v u now d = (Inr p, d')
              \<and> set (pr_tags (photo_to_representation d' p))
                   = {t \<in> set (tags d). tag_id t \<in> set tag_ids}
              \<and> set (tags_of d' (photo_id p)) = {t \<in> set (tags d). tag_id t \<in> set tag_ids}"
    by (auto simp: pr_tags_representation)
next
  assume a: "get_object photo_id (photo_get_queryset u d) pk = Inr inst
            \<and> photo_run_validation fv d b = Inr v \<and> pf_tag_ids v = Some tag_ids"
  then obtain p d' where c: "photo_serializer_update inst v d = (Inr p, d')"
    and i: "photo_id p = photo_id inst"
    and s: "set (tags_of d' (photo_id p)) = {t \<in> set (tags d). tag_id t \<in> set tag_ids}"
    using serializer_update_tags[OF _ rng, of v inst d] by blast
  from a c have "photo_update fv (Some u) pk b d = (Inr (photo_to_representation d' p), d')"
    by (simp add: photo_update_def)
  with c s i show "\<exists>p d'. photo_update fv (Some u) pk b d = (Inr (photo_to_representation d' p), d')
              \<and> photo_serializer_update inst v d = (Inr p, d') \<and> photo_id p = photo_id inst
              \<and> set (pr_tags (photo_to_representation d' p))
                   = {t \<in> set (tags d). tag_id t \<in> set tag_ids}
              \<and> set (tags_of d' (photo_id inst)) = {t \<in> set (tags d). tag_id t \<in> set tag_ids}"
    by (auto simp: pr_tags_representation)
qed

lemma tag_ids_in_range_filtered_sample:
  "(\<exists>p d'. photo_create accept_all 40 (Some 1) sample_photo_body sample_db
              = (Inr (photo_to_representation d' p), d')
         \<and> set (tags_of d' (photo_id p)) = {tag1})
   \<and> (\<exists>p d'. photo_update accept_all (Some 2) 2 sample_photo_body sample_db
              = (Inr (photo_to_representation d' p), d')
         \<and> photo_id p = 2 \<and> set (tags_of d' 2) = {tag1})"
proof -
  let ?v = "photo_writable sample_photo_body"
  have links: "\<forall>(p, t)\<in>set (photo_tags sample_db). p \<in> set (map photo_id (photos sample_db))"
    by (simp add: sample_defs)
  have rng: "list_all storable_int [1, 9999]"
    by (simp add: storable_int_def)
  have g: "get_object photo_id (photo_get_queryset 2 sample_db) 2 = Inr photo2"
    by (simp add: get_object_def photo_get_queryset_def sample_defs)
  have val: "photo_run_validation accept_all sample_db sample_photo_body = Inr ?v"
    by (simp add: photo_run_validation_def photo_writable_def sample_body_defs sample_defs)
  have v: "pf_album ?v = Some 1" "pf_tag_ids ?v = Some [1, 9999]"
    by (simp_all add: photo_writable_def sample_body_defs)
  have s: "{t \<in> set (tags sample_db). tag_id t \<in> set [1, 9999]} = {tag1}"
    by (auto simp: sample_defs)
  have pid: "photo_id photo2 = 2" by (simp add: photo2_def)
  note t = tag_ids_in_range_filtered[OF links rng, of ?v 1 _ _ _ accept_all sample_photo_body]
  from t[of _ 40 _ 1] val v
  have 1: "\<exists>p d'. photo_create accept_all 40 (Some 1) sample_photo_body sample_db
              = (Inr (photo_to_representation d' p), d')
         \<and> set (tags_of d' (photo_id p)) = {t \<in> set (tags sample_db). tag_id t \<in> set [1, 9999]}"
    by blast
  from t[of _ _ photo2 2 2] val v g
  have 2: "\<exists>p d'. photo_update accept_all (Some 2) 2 sample_photo_body sample_db
              = (Inr (photo_to_representation d' p), d') \<and> photo_id p = photo_id photo2
         \<and> set (tags_of d' (photo_id photo2)) = {t \<in> set (tags sample_db). tag_id t \<in> set [1, 9999]}"
    by blast
  from 1 2 show ?thesis unfolding s pid by blast
qed

text \<open>
  C4. Dropping the identifiers of no tag holds for identifiers that can be bound, but not for
  every list: \<open>tag_ids\<close> may carry an integer beyond 64 bits, which is the key of no tag;
  reading the tags then raises instead of dropping it. On the sample storage with \<open>tag_ids\<close>
  \<open>[1, 2^63]\<close>: the create request is answered 500 after the photo row has been inserted,
  without any tag, and the update request is answered 500 with nothing changed, where the
  specification has both succeed with the photo tagged by tag 1.
\<close>

theorem tag_ids_beyond_64_bits_raise:
  "9223372036854775808 \<notin> set (map tag_id (tags sample_db))
   \<and> photo_run_validation accept_all sample_db
        (sample_photo_body\<lparr>pb_tag_ids := Some [1, 9223372036854775808]\<rparr>)
       = Inr (photo_writable (sample_photo_body\<lparr>pb_tag_ids := Some [1, 9223372036854775808]\<rparr>))
   \<and> photo_create accept_all 40 (Some 1)
        (sample_photo_body\<lparr>pb_tag_ids := Some [1, 9223372036854775808]\<rparr>) sample_db
       = (Inl OverflowError,
          sample_db\<lparr>photos := photos sample_db @
            [\<lparr>photo_id = 4, photo_title = ''Hill'', photo_description = [],
              photo_image = ''photos/hill.jpg'', uploaded_at = 40, photo_album = 1,
              photo_owner = 1\<rparr>]\<rparr>)
   \<and> tags_of (snd (photo_create accept_all 40 (Some 1)
        (sample_photo_body\<lparr>pb_tag_ids := Some [1, 9223372036854775808]\<rparr>) sample_db)) 4 = []
   \<and> http_status 201 (fst (photo_create accept_all 40 (Some 1)
        (sample_photo_body\<lparr>pb_tag_ids := Some [1, 9223372036854775808]\<rparr>) sample_db)) = 500
   \<and> photo_update accept_all (Some 2) 2
        (sample_photo_body\<lparr>pb_tag_ids := Some [1, 9223372036854775808]\<rparr>) sample_db
       = (Inl OverflowError, sample_db)
   \<and> http_status 200 (fst (photo_update accept_all (Some 2) 2
        (sample_photo_body\<lparr>pb_tag_ids := Some [1, 9223372036854775808]\<rparr>) sample_db)) = 500"
proof -
  let ?b = "sample_photo_body\<lparr>pb_tag_ids := Some [1, 9223372036854775808]\<rparr>"
  have n: "9223372036854775808 \<notin> set (map tag_id (tags sample_db))"
    by (simp add: sample_defs)
  have o: "\<not> list_all storable_int [1, 9223372036854775808]"
    by (simp add: storable_int_def)
  have val: "photo_run_validation accept_all sample_db ?b = Inr (photo_writable ?b)"
    by (simp add: photo_run_validation_def photo_writable_def sample_body_defs sample_defs)
  have nid: "next_id (map photo_id (photos sample_db)) = 4"
    by (simp add: next_id_def sample_defs)
  have c: "photo_create accept_all 40 (Some 1) ?b sample_db
       = (Inl OverflowError,
          sample_db\<lparr>photos := photos sample_db @
            [\<lparr>photo_id = 4, photo_title = ''Hill'', photo_description = [],
              photo_image = ''photos/hill.jpg'', uploaded_at = 40, photo_album = 1,
              photo_owner = 1\<rparr>]\<rparr>)"
  proof -
    have "photo_serializer_create (photo_writable ?b) 1 40 sample_db
       = (Inl OverflowError,
          sample_db\<lparr>photos := photos sample_db @
            [\<lparr>photo_id = 4, photo_title = ''Hill'', photo_description = [],
              photo_image = ''photos/hill.jpg'', uploaded_at = 40, photo_album = 1,
              photo_owner = 1\<rparr>]\<rparr>)"
      by (simp add: photo_serializer_create_def photo_writable_def sample_body_defs
          supplied_def Let_def nid tags_filter_id_in_overflow[OF o])
    then show ?thesis
      by (simp add: photo_create_def val photo_perform_create_def)
  qed
  have t: "tags_of (snd (photo_create accept_all 40 (Some 1) ?b sample_db)) 4 = []"
    unfolding c by (simp add: tags_of_def sample_defs)
  have g: "get_object photo_id (photo_get_queryset 2 sample_db) 2 = Inr photo2"
    by (simp add: get_object_def photo_get_queryset_def sample_defs)
  have ns: "\<not> tag_ids_storable (pf_tag_ids (photo_writable ?b))"
    using o by (simp add: tag_ids_storable_def photo_writable_def)
  have u: "photo_update accept_all (Some 2) 2 ?b sample_db = (Inl OverflowError, sample_db)"
    by (simp add: photo_update_def g val photo_serializer_update_overflow[OF ns])
  from n val c t u show ?thesis
    by (simp add: http_status_def)
qed

subsection \<open>Registration\<close>

lemma add_error_key: "k \<in> fst ` set (add_error k m es)"
  by (induction k m es rule: add_error.induct) auto

lemma add_error_not_Nil: "add_error k m es \<noteq> []"
  by (induction k m es rule: add_error.induct) auto

lemma registration_is_public: "user_get_permissions Create request_user"
  by (simp add: user_get_permissions_def)

text \<open>
  C5, as stated, does not hold of every registration request: authentication comes before the
  public permission of the action, so a request that carries credentials which are rejected is
  answered 401 and creates no user, also when its body passes validation.
\<close>

theorem registration_with_rejected_credentials:
  "user_run_validation accept_all sample_db None sample_user_body
     = Inr (user_writable sample_user_body)
   \<and> user_create sample_for_user accept_all 50 RejectedToken sample_user_body sample_db
     = ((401, Inl [(''detail'', [''Given token not valid for any token type''])]), sample_db)
   \<and> fst (fst (user_create sample_for_user accept_all 50 RejectedToken sample_user_body sample_db))
       \<noteq> 201"
  by (simp add: user_create_def user_run_validation_def user_writable_def username_exists_def
      sample_body_defs sample_defs)

text \<open>
  C5, amended. For a registration request without credentials or with credentials that are
  accepted: when validation succeeds, the answer has status 201, its body holds the new user
  together with the refresh and the access token made for that user, and the storage has that
  user appended; when validation fails, the errors are not empty, the answer has status 400
  with the errors as body, and the storage is as before. A username that some user in storage
  has makes validation fail with an error under \<open>username\<close>. A request with rejected
  credentials is answered 401 and leaves the storage as before.
\<close>

theorem registration_created_or_rejected:
  "(creds \<noteq> RejectedToken \<longrightarrow>
      (\<forall>v. user_run_validation fv d None b = Inr v \<longrightarrow>
         (\<exists>u. user_create for_user fv now creds b d
                = ((201, Inr \<lparr>reg_user = u, reg_refresh = fst (for_user u),
                               reg_access = snd (for_user u)\<rparr>),
                   d\<lparr>users := users d @ [u]\<rparr>)
             \<and> u = fst (user_serializer_create now v d)
             \<and> username u = supplied (uf_username v) []))
      \<and> (\<forall>errs. user_run_validation fv d None b = Inl errs \<longrightarrow>
            errs \<noteq> [] \<and> user_create for_user fv now creds b d = ((400, Inl errs), d)))
   \<and> (\<forall>n. uf_username (snd (fv (user_writable b))) = Some n \<and> n \<in> username ` set (users d) \<longrightarrow>
         (\<exists>errs. user_run_validation fv d None b = Inl errs \<and> ''username'' \<in> fst ` set errs))
   \<and> (creds = RejectedToken \<longrightarrow>
         fst (fst (user_create for_user fv now creds b d)) = 401
         \<and> snd (user_create for_user fv now creds b d) = d)"
proof (intro conjI allI impI)
  fix v assume c: "creds \<noteq> RejectedToken" and "user_run_validation fv d None b = Inr v"
  then show "\<exists>u. user_create for_user fv now creds b d
                = ((201, Inr \<lparr>reg_user = u, reg_refresh = fst (for_user u),
                               reg_access = snd (for_user u)\<rparr>),
                   d\<lparr>users := users d @ [u]\<rparr>)
             \<and> u = fst (user_serializer_create now v d)
             \<and> username u = supplied (uf_username v) []"
    by (cases creds)
      (simp_all add: user_create_def registration_is_public user_serializer_create_def Let_def
        split_beta)
next
  fix errs assume c: "creds \<noteq> RejectedToken" and e: "user_run_validation fv d None b = Inl errs"
  from e show "errs \<noteq> []"
    by (auto simp: user_run_validation_def Let_def split_beta split: if_splits)
  from c e show "user_create for_user fv now creds b d = ((400, Inl errs), d)"
    by (cases creds) (simp_all add: user_create_def registration_is_public)
next
  fix n assume a: "uf_username (snd (fv (user_writable b))) = Some n \<and> n \<in> username ` set (users d)"
  then have ex: "username_exists d None n" by (auto simp: username_exists_def)
  let ?errs = "add_error ''username'' ''A user with that username already exists.''
                 (fst (fv (user_writable b)))"
  have "user_run_validation fv d None b = Inl ?errs"
    using a ex by (simp add: user_run_validation_def Let_def split_beta add_error_not_Nil)
  then show "\<exists>errs. user_run_validation fv d None b = Inl errs \<and> ''username'' \<in> fst ` set errs"
    using add_error_key by blast
next
  assume "creds = RejectedToken"
  then show "fst (fst (user_create for_user fv now creds b d)) = 401"
    and "snd (user_create for_user fv now creds b d) = d"
    by (simp_all add: user_create_def)
qed

theorem registration_created_or_rejected_witness:
  "(\<exists>u. user_create sample_for_user accept_all 50 NoCredentials sample_user_body sample_db
          = ((201, Inr \<lparr>reg_user = u, reg_refresh = ''refresh-carol'', reg_access = ''access-carol''\<rparr>),
             sample_db\<lparr>users := users sample_db @ [u]\<rparr>)
        \<and> username u = ''carol'')
   \<and> user_create sample_for_user accept_all 50 (AcceptedToken 2)
        (sample_user_body\<lparr>ub_username := Some ''alice''\<rparr>) sample_db
       = ((400, Inl [(''username'', [''A user with that username already exists.''])]), sample_db)
   \<and> fst (fst (user_create sample_for_user accept_all 50 RejectedToken sample_user_body sample_db))
       = 401
   \<and> snd (user_create sample_for_user accept_all 50 RejectedToken sample_user_body sample_db)
       = sample_db"
proof -
  let ?b2 = "sample_user_body\<lparr>ub_username := Some ''alice''\<rparr>"
  have v1: "user_run_validation accept_all sample_db None sample_user_body
              = Inr (user_writable sample_user_body)"
    by (simp add: user_run_validation_def user_writable_def username_exists_def
        sample_body_defs sample_defs)
  have v2: "user_run_validation accept_all sample_db None ?b2
              = Inl [(''username'', [''A user with that username already exists.''])]"
    by (simp add: user_run_validation_def user_writable_def username_exists_def
        sample_body_defs sample_defs)
  have n: "supplied (uf_username (user_writable sample_user_body)) [] = ''carol''"
    by (simp add: supplied_def user_writable_def sample_body_defs)
  have c: "NoCredentials \<noteq> RejectedToken" "AcceptedToken 2 \<noteq> RejectedToken" by simp_all
  from registration_created_or_rejected[of NoCredentials accept_all sample_db sample_user_body
      sample_for_user 50] v1 n c
  obtain u where u: "user_create sample_for_user accept_all 50 NoCredentials sample_user_body sample_db
          = ((201, Inr \<lparr>reg_user = u, reg_refresh = fst (sample_for_user u),
                        reg_access = snd (sample_for_user u)\<rparr>),
             sample_db\<lparr>users := users sample_db @ [u]\<rparr>)" "username u = ''carol''"
    by auto
  from u(2) have t: "fst (sample_for_user u) = ''refresh-carol''"
    "snd (sample_for_user u) = ''access-carol''"
    by (simp_all add: sample_for_user_def)
  from registration_created_or_rejected[of "AcceptedToken 2" accept_all sample_db ?b2
      sample_for_user 50] v2 c
  have r: "user_create sample_for_user accept_all 50 (AcceptedToken 2) ?b2 sample_db
       = ((400, Inl [(''username'', [''A user with that username already exists.''])]), sample_db)"
    by blast
  from registration_created_or_rejected[of RejectedToken accept_all sample_db sample_user_body
      sample_for_user 50]
  have j: "fst (fst (user_create sample_for_user accept_all 50 RejectedToken sample_user_body
       sample_db)) = 401"
    "snd (user_create sample_for_user accept_all 50 RejectedToken sample_user_body sample_db)
       = sample_db"
    by blast+
  from u t r j show ?thesis by auto
qed

subsection \<open>Cascading deletes\<close>

text \<open>
  C6. After a user is deleted, no album and no photo in storage has that user as owner, no
  photo is in an album that the user owned, and the user is gone; after an album is deleted,
  no photo in storage is in that album and the album is gone. A destroy request that succeeds
  performs exactly this delete.
\<close>

theorem cascade_delete:
  "(\<forall>a\<in>set (albums (user_delete uid d)). album_owner a \<noteq> uid)
   \<and> (\<forall>p\<in>set (photos (user_delete uid d)). photo_owner p \<noteq> uid
         \<and> (\<forall>a\<in>set (albums d). album_owner a = uid \<longrightarrow> photo_album p \<noteq> album_id a))
   \<and> (\<forall>u\<in>set (users (user_delete uid d)). user_id u \<noteq> uid)
   \<and> (\<forall>p\<in>set (photos (album_delete aid d)). photo_album p \<noteq> aid)
   \<and> (\<forall>a\<in>set (albums (album_delete aid d)). album_id a \<noteq> aid)
   \<and> (\<forall>x d'. user_destroy request_user uid d = (Inr x, d') \<longrightarrow> d' = user_delete uid d)
   \<and> (\<forall>x d'. album_destroy request_user aid d = (Inr x, d') \<longrightarrow> d' = album_delete aid d)"
proof (intro conjI)
  show "\<forall>a\<in>set (albums (user_delete uid d)). album_owner a \<noteq> uid"
    by (auto simp: user_delete_def delete_albums_def delete_photos_def Let_def)
  show "\<forall>p\<in>set (photos (user_delete uid d)). photo_owner p \<noteq> uid
         \<and> (\<forall>a\<in>set (albums d). album_owner a = uid \<longrightarrow> photo_album p \<noteq> album_id a)"
    by (auto simp: user_delete_def delete_albums_def delete_photos_def Let_def)
  show "\<forall>u\<in>set (users (user_delete uid d)). user_id u \<noteq> uid"
    by (auto simp: user_delete_def delete_albums_def delete_photos_def Let_def)
  show "\<forall>p\<in>set (photos (album_delete aid d)). photo_album p \<noteq> aid"
    by (auto simp: album_delete_def delete_albums_def delete_photos_def Let_def)
  show "\<forall>a\<in>set (albums (album_delete aid d)). album_id a \<noteq> aid"
    by (auto simp: album_delete_def delete_albums_def delete_photos_def Let_def)
  show "\<forall>x d'. user_destroy request_user uid d = (Inr x, d') \<longrightarrow> d' = user_delete uid d"
    by (auto simp: user_destroy_def get_object_def find_Some_iff
        split: if_splits sum.splits option.splits)
  show "\<forall>x d'. album_destroy request_user aid d = (Inr x, d') \<longrightarrow> d' = album_delete aid d"
    by (auto simp: album_destroy_def get_object_def find_Some_iff
        split: if_splits sum.splits option.splits)
qed


theorem cascade_delete_witness:
  "user_delete 1 sample_db
     = \<lparr>users = [bob], albums = [album2], tags = [tag1, tag2], photos = [photo2],
        photo_tags = [(2, 1)]\<rparr>
   \<and> album_delete 1 sample_db
     = \<lparr>users = [alice, bob], albums = [album2], tags = [tag1, tag2], photos = [photo2],
        photo_tags = [(2, 1)]\<rparr>
   \<and> user_destroy (Some 2) 1 sample_db = (Inr (), user_delete 1 sample_db)
   \<and> album_destroy (Some 1) 1 sample_db = (Inr (), album_delete 1 sample_db)
   \<and> album1 \<in> set (albums sample_db) \<and> album_owner album1 = 1
   \<and> photo1 \<in> set (photos sample_db) \<and> photo_owner photo1 = 1
   \<and> photo3 \<in> set (photos sample_db) \<and> photo_album photo3 = album_id album1
   \<and> album1 \<notin> set (albums (user_delete 1 sample_db))
   \<and> photo1 \<notin> set (photos (user_delete 1 sample_db))
   \<and> photo3 \<notin> set (photos (user_delete 1 sample_db))
   \<and> photo3 \<notin> set (photos (album_delete 1 sample_db))"
proof -
  have ud: "user_delete 1 sample_db
     = \<lparr>users = [bob], albums = [album2], tags = [tag1, tag2], photos = [photo2],
        photo_tags = [(2, 1)]\<rparr>"
    by (simp add: user_delete_def delete_albums_def delete_photos_def sample_defs)
  have ad: "album_delete 1 sample_db
     = \<lparr>users = [alice, bob], albums = [album2], tags = [tag1, tag2], photos = [photo2],
        photo_tags = [(2, 1)]\<rparr>"
    by (simp add: album_delete_def delete_albums_def delete_photos_def sample_defs)
  have h: "user_destroy (Some 2) 1 sample_db = (Inr (), user_delete 1 sample_db)"
    "album_destroy (Some 1) 1 sample_db = (Inr (), album_delete 1 sample_db)"
    by (simp_all add: user_destroy_def album_destroy_def user_get_permissions_def
        IsAuthenticated_def get_object_def album_get_queryset_def sample_defs)
  have m: "album1 \<in> set (albums sample_db)" "album_owner album1 = 1"
    "photo1 \<in> set (photos sample_db)" "photo_owner photo1 = 1"
    "photo3 \<in> set (photos sample_db)" "photo_album photo3 = album_id album1"
    by (simp_all add: sample_defs)
  have i: "album_id album1 = 1" by (simp add: album1_def)
  note c = cascade_delete[of 1 sample_db 1 "Some 2"]
  from c m have 1: "album1 \<notin> set (albums (user_delete 1 sample_db))" by blast
  from c m have 2: "photo1 \<notin> set (photos (user_delete 1 sample_db))" by blast
  from c m have 3: "photo3 \<notin> set (photos (user_delete 1 sample_db))" by metis
  from c m i have 4: "photo3 \<notin> set (photos (album_delete 1 sample_db))" by metis
  from ud ad h m 1 2 3 4 show ?thesis by blast
qed

subsection \<open>Access to records of another owner\<close>

text \<open>
  C7. For a caller \<open>u\<close>: with unique album keys, a retrieve, update or delete on any album in
  storage that has another owner ends with \<open>NotFound\<close>, status 404, and leaves the storage as
  it was; with unique photo keys the same holds of any photo in storage that has another
  owner; and the very same result is given for a key that no album, or no photo, has.
\<close>

theorem cross_user_access_not_found:
  "(distinct (map album_id (albums d)) \<longrightarrow>
      (\<forall>a\<in>set (albums d). album_owner a \<noteq> u \<longrightarrow>
         album_retrieve (Some u) (album_id a) d = Inl NotFound
         \<and> album_update fv now (Some u) (album_id a) b d = (Inl NotFound, d)
         \<and> album_destroy (Some u) (album_id a) d = (Inl NotFound, d)
         \<and> http_status 200 (album_retrieve (Some u) (album_id a) d) = 404
         \<and> http_status 200 (fst (album_update fv now (Some u) (album_id a) b d)) = 404
         \<and> http_status 204 (fst (album_destroy (Some u) (album_id a) d)) = 404))
   \<and> (distinct (map photo_id (photos d)) \<longrightarrow>
      (\<forall>p\<in>set (photos d). photo_owner p \<noteq> u \<longrightarrow>
         photo_retrieve (Some u) (photo_id p) d = Inl NotFound
         \<and> photo_update fv' (Some u) (photo_id p) b' d = (Inl NotFound, d)
         \<and> photo_destroy (Some u) (photo_id p) d = (Inl NotFound, d)
         \<and> http_status 200 (photo_retrieve (Some u) (photo_id p) d) = 404
         \<and> http_status 200 (fst (photo_update fv' (Some u) (photo_id p) b' d)) = 404
         \<and> http_status 204 (fst (photo_destroy (Some u) (photo_id p) d)) = 404))
   \<and> (\<forall>pk. pk \<notin> set (map album_id (albums d)) \<longrightarrow>
         album_retrieve (Some u) pk d = Inl NotFound
         \<and> album_update fv now (Some u) pk b d = (Inl NotFound, d)
         \<and> album_destroy (Some u) pk d = (Inl NotFound, d))
   \<and> (\<forall>pk. pk \<notin> set (map photo_id (photos d)) \<longrightarrow>
         photo_retrieve (Some u) pk d = Inl NotFound
         \<and> photo_update fv' (Some u) pk b' d = (Inl NotFound, d)
         \<and> photo_destroy (Some u) pk d = (Inl NotFound, d))"
proof (intro conjI impI ballI allI)
  fix a assume "distinct (map album_id (albums d))" "a \<in> set (albums d)" "album_owner a \<noteq> u"
  then have g: "get_object album_id (album_get_queryset u d) (album_id a) = Inl NotFound"
    unfolding album_get_queryset_def by (intro get_object_not_in_queryset) simp_all
  show "album_retrieve (Some u) (album_id a) d = Inl NotFound"
    "album_update fv now (Some u) (album_id a) b d = (Inl NotFound, d)"
    "album_destroy (Some u) (album_id a) d = (Inl NotFound, d)"
    "http_status 200 (album_retrieve (Some u) (album_id a) d) = 404"
    "http_status 200 (fst (album_update fv now (Some u) (album_id a) b d)) = 404"
    "http_status 204 (fst (album_destroy (Some u) (album_id a) d)) = 404"
    by (simp_all add: album_retrieve_def album_update_def album_destroy_def http_status_def g)
next
  fix p assume "distinct (map photo_id (photos d))" "p \<in> set (photos d)" "photo_owner p \<noteq> u"
  then have g: "get_object photo_id (photo_get_queryset u d) (photo_id p) = Inl NotFound"
    unfolding photo_get_queryset_def by (intro get_object_not_in_queryset) simp_all
  show "photo_retrieve (Some u) (photo_id p) d = Inl NotFound"
    "photo_update fv' (Some u) (photo_id p) b' d = (Inl NotFound, d)"
    "photo_destroy (Some u) (photo_id p) d = (Inl NotFound, d)"
    "http_status 200 (photo_retrieve (Some u) (photo_id p) d) = 404"
    "http_status 200 (fst (photo_update fv' (Some u) (photo_id p) b' d)) = 404"
    "http_status 204 (fst (photo_destroy (Some u) (photo_id p) d)) = 404"
    by (simp_all add: photo_retrieve_def photo_update_def photo_destroy_def http_status_def g)
next
  fix pk assume "pk \<notin> set (map album_id (albums d))"
  then have g: "get_object album_id (album_get_queryset u d) pk = Inl NotFound"
    unfolding album_get_queryset_def by (rule get_object_absent)
  show "album_retrieve (Some u) pk d = Inl NotFound"
    "album_update fv now (Some u) pk b d = (Inl NotFound, d)"
    "album_destroy (Some u) pk d = (Inl NotFound, d)"
    by (simp_all add: album_retrieve_def album_update_def album_destroy_def g)
next
  fix pk assume "pk \<notin> set (map photo_id (photos d))"
  then have g: "get_object photo_id (photo_get_queryset u d) pk = Inl NotFound"
    unfolding photo_get_queryset_def by (rule get_object_absent)
  show "photo_retrieve (Some u) pk d = Inl NotFound"
    "photo_update fv' (Some u) pk b' d = (Inl NotFound, d)"
    "photo_destroy (Some u) pk d = (Inl NotFound, d)"
    by (simp_all add: photo_retrieve_def photo_update_def photo_destroy_def g)
qed

theorem cross_user_access_not_found_witness:
  "distinct (map album_id (albums sample_db)) \<and> distinct (map photo_id (photos sample_db))
   \<and> album2 \<in> set (albums sample_db) \<and> album_owner album2 \<noteq> 1
   \<and> photo2 \<in> set (photos sample_db) \<and> photo_owner photo2 \<noteq> 1
   \<and> 99 \<notin> set (map album_id (albums sample_db)) \<and> 99 \<notin> set (map photo_id (photos sample_db))
   \<and> album_retrieve (Some 1) (album_id album2) sample_db = Inl NotFound
   \<and> album_update accept_all 60 (Some 1) (album_id album2) sample_album_body sample_db
       = (Inl NotFound, sample_db)
   \<and> album_destroy (Some 1) (album_id album2) sample_db = (Inl NotFound, sample_db)
   \<and> photo_retrieve (Some 1) (photo_id photo2) sample_db = Inl NotFound
   \<and> photo_update accept_all (Some 1) (photo_id photo2) sample_photo_body sample_db
       = (Inl NotFound, sample_db)
   \<and> photo_destroy (Some 1) (photo_id photo2) sample_db = (Inl NotFound, sample_db)
   \<and> album_retrieve (Some 1) 99 sample_db = Inl NotFound
   \<and> photo_retrieve (Some 1) 99 sample_db = Inl NotFound
   \<and> album_retrieve (Some 2) (album_id album2) sample_db
       = Inr (album_to_representation sample_db album2)
   \<and> photos (sample_db\<lparr>photos := [], photo_tags := []\<rparr>) = []
   \<and> album2 \<in> set (albums (sample_db\<lparr>photos := [], photo_tags := []\<rparr>))
   \<and> album_destroy (Some 1) (album_id album2) (sample_db\<lparr>photos := [], photo_tags := []\<rparr>)
       = (Inl NotFound, sample_db\<lparr>photos := [], photo_tags := []\<rparr>)"
proof -
  let ?e = "sample_db\<lparr>photos := [], photo_tags := []\<rparr>"
  have h: "distinct (map album_id (albums sample_db))" "distinct (map photo_id (photos sample_db))"
    "album2 \<in> set (albums sample_db)" "album_owner album2 \<noteq> 1"
    "photo2 \<in> set (photos sample_db)" "photo_owner photo2 \<noteq> 1"
    "99 \<notin> set (map album_id (albums sample_db))" "99 \<notin> set (map photo_id (photos sample_db))"
    by (simp_all add: sample_defs)
  have e: "distinct (map album_id (albums ?e))" "album2 \<in> set (albums ?e)" "photos ?e = []"
    by (simp_all add: sample_defs)
  have own: "album_retrieve (Some 2) (album_id album2) sample_db
       = Inr (album_to_representation sample_db album2)"
    by (simp add: album_retrieve_def album_get_queryset_def get_object_def sample_defs)
  note t = cross_user_access_not_found[where d = sample_db and u = 1 and fv = accept_all
      and now = 60 and b = sample_album_body and fv' = accept_all and b' = sample_photo_body]
  from t h have 1: "album_retrieve (Some 1) (album_id album2) sample_db = Inl NotFound"
    "album_update accept_all 60 (Some 1) (album_id album2) sample_album_body sample_db
       = (Inl NotFound, sample_db)"
    "album_destroy (Some 1) (album_id album2) sample_db = (Inl NotFound, sample_db)"
    by blast+
  from t h have 2: "photo_retrieve (Some 1) (photo_id photo2) sample_db = Inl NotFound"
    "photo_update accept_all (Some 1) (photo_id photo2) sample_photo_body sample_db
       = (Inl NotFound, sample_db)"
    "photo_destroy (Some 1) (photo_id photo2) sample_db = (Inl NotFound, sample_db)"
    by blast+
  from t h have 3: "album_retrieve (Some 1) 99 sample_db = Inl NotFound"
    "photo_retrieve (Some 1) 99 sample_db = Inl NotFound"
    by blast+
  from cross_user_access_not_found[where d = ?e and u = 1] e h(4)
  have 4: "album_destroy (Some 1) (album_id album2) ?e = (Inl NotFound, ?e)"
    by blast
  from h e own 1 2 3 4 show ?thesis by blast
qed

subsection \<open>The user collection\<close>

lemma user_delete_users:
  "users (user_delete uid d) = filter (\<lambda>u. user_id u \<noteq> uid) (users d)"
  by (simp add: user_delete_def delete_albums_def delete_photos_def Let_def)

text \<open>
  C8. With unique primary keys, for any authenticated caller \<open>c\<close> and any user \<open>t\<close> in
  storage, whether or not \<open>t\<close> is the caller: the list holds all users, the retrieve returns
  \<open>t\<close>, the destroy deletes \<open>t\<close>, and an update whose body passes validation stores and returns
  the updated row of \<open>t\<close>.
\<close>

theorem user_collection_not_owner_scoped:
  assumes du: "distinct (map user_id (users d))" and t: "t \<in> set (users d)"
  shows "user_list (Some c) d = Inr (users d)
       \<and> user_retrieve (Some c) (user_id t) d = Inr t
       \<and> user_destroy (Some c) (user_id t) d = (Inr (), user_delete (user_id t) d)
       \<and> t \<notin> set (users (user_delete (user_id t) d))
       \<and> (\<forall>v. user_run_validation fv d (Some (user_id t)) b = Inr v \<longrightarrow>
             user_update fv (Some c) (user_id t) b d = (Inr (fst (user_serializer_update t v d)),
                snd (user_serializer_update t v d))
             \<and> fst (user_serializer_update t v d) \<in> set (users (snd (user_serializer_update t v d)))
             \<and> username (fst (user_serializer_update t v d)) = supplied (uf_username v) (username t)
             \<and> user_id (fst (user_serializer_update t v d)) = user_id t)"
proof -
  have g: "get_object user_id (users d) (user_id t) = Inr t"
    using du t by (rule get_object_present)
  have perm: "user_get_permissions act (Some c)" for act
    by (simp add: user_get_permissions_def IsAuthenticated_def)
  have 1: "user_list (Some c) d = Inr (users d)"
    by (simp add: user_list_def perm)
  have 2: "user_retrieve (Some c) (user_id t) d = Inr t"
    by (simp add: user_retrieve_def perm g)
  have 3: "user_destroy (Some c) (user_id t) d = (Inr (), user_delete (user_id t) d)"
    by (simp add: user_destroy_def perm g)
  have 4: "t \<notin> set (users (user_delete (user_id t) d))"
    by (simp add: user_delete_users)
  have 5: "user_update fv (Some c) (user_id t) b d = (Inr (fst (user_serializer_update t v d)),
                snd (user_serializer_update t v d))
             \<and> fst (user_serializer_update t v d) \<in> set (users (snd (user_serializer_update t v d)))
             \<and> username (fst (user_serializer_update t v d)) = supplied (uf_username v) (username t)
             \<and> user_id (fst (user_serializer_update t v d)) = user_id t"
    if "user_run_validation fv d (Some (user_id t)) b = Inr v" for v
    using that t by (auto simp: user_update_def perm g user_serializer_update_def Let_def)
  from 1 2 3 4 5 show ?thesis by blast
qed

theorem user_collection_not_owner_scoped_witness:
  "distinct (map user_id (users sample_db)) \<and> bob \<in> set (users sample_db) \<and> user_id bob \<noteq> 1
   \<and> user_list (Some 1) sample_db = Inr [alice, bob]
   \<and> user_retrieve (Some 1) (user_id bob) sample_db = Inr bob
   \<and> user_destroy (Some 1) (user_id bob) sample_db = (Inr (), user_delete (user_id bob) sample_db)
   \<and> bob \<notin> set (users (user_delete (user_id bob) sample_db))
   \<and> user_update accept_all (Some 1) (user_id bob) sample_user_body sample_db
       = (Inr (bob\<lparr>username := ''carol'', email := ''carol@example.org''\<rparr>),
          sample_db\<lparr>users := [alice, bob\<lparr>username := ''carol'', email := ''carol@example.org''\<rparr>]\<rparr>)"
proof -
  let ?v = "user_writable sample_user_body"
  have h: "distinct (map user_id (users sample_db))" "bob \<in> set (users sample_db)"
    by (simp_all add: sample_defs)
  have o: "user_id bob \<noteq> 1" "users sample_db = [alice, bob]"
    by (simp_all add: sample_defs)
  have val: "user_run_validation accept_all sample_db (Some (user_id bob)) sample_user_body = Inr ?v"
    by (simp add: user_run_validation_def user_writable_def username_exists_def
        sample_body_defs sample_defs)
  have upd: "user_serializer_update bob ?v sample_db
       = (bob\<lparr>username := ''carol'', email := ''carol@example.org''\<rparr>,
          sample_db\<lparr>users := [alice, bob\<lparr>username := ''carol'', email := ''carol@example.org''\<rparr>]\<rparr>)"
    by (simp add: user_serializer_update_def user_writable_def supplied_def Let_def
        sample_body_defs sample_defs)
  from user_collection_not_owner_scoped[OF h, of 1 accept_all sample_user_body] val
  have "user_list (Some 1) sample_db = Inr (users sample_db)"
    and "user_retrieve (Some 1) (user_id bob) sample_db = Inr bob"
    and "user_destroy (Some 1) (user_id bob) sample_db = (Inr (), user_delete (user_id bob) sample_db)"
    and "bob \<notin> set (users (user_delete (user_id bob) sample_db))"
    and "user_update accept_all (Some 1) (user_id bob) sample_user_body sample_db
           = (Inr (fst (user_serializer_update bob ?v sample_db)),
              snd (user_serializer_update bob ?v sample_db))"
    by blast+
  with h o upd show ?thesis by simp
qed

subsection \<open>The storage stays well-formed\<close>

lemma map_pk_replace:
  "f a = k \<Longrightarrow> map (f \<circ> (\<lambda>x. if f x = k then a else x)) xs = map f xs"
  by (induction xs) auto

lemma image_pk_replace:
  "f a = k \<Longrightarrow> (\<lambda>x. f (if f x = k then a else x)) ` S = f ` S"
  by (rule image_cong) auto

lemma wf_user_serializer_create: "wf_db d \<Longrightarrow> wf_db (snd (user_serializer_create now v d))"
  using next_id_fresh[of "map user_id (users d)"]
  by (simp add: wf_db_def user_serializer_create_def Let_def)

lemma wf_user_serializer_update: "wf_db d \<Longrightarrow> wf_db (snd (user_serializer_update inst v d))"
  by (simp add: wf_db_def user_serializer_update_def Let_def map_pk_replace)

lemma wf_album_serializer_save: "wf_db d \<Longrightarrow> wf_db (snd (album_serializer_save v owner now d))"
  using next_id_fresh[of "map album_id (albums d)"]
  by (simp add: wf_db_def album_serializer_save_def Let_def)

lemma wf_album_serializer_update: "wf_db d \<Longrightarrow> wf_db (snd (album_serializer_update inst v now d))"
  by (simp add: wf_db_def album_serializer_update_def Let_def map_pk_replace)

lemma wf_tags_set:
  "wf_db d \<Longrightarrow> pid \<in> set (map photo_id (photos d)) \<Longrightarrow> wf_db (tags_set pid ts d)"
  by (auto simp: wf_db_def tags_set_def Let_def)

lemma wf_photo_serializer_create: "wf_db d \<Longrightarrow> wf_db (snd (photo_serializer_create v owner now d))"
proof -
  assume w: "wf_db d"
  let ?pid = "next_id (map photo_id (photos d))"
  have "wf_db (d\<lparr>photos := photos d @ [p]\<rparr>)" if "photo_id p = ?pid" for p
    using w that next_id_fresh[of "map photo_id (photos d)"] by (auto simp: wf_db_def)
  moreover have "wf_db (tags_set ?pid ts (d\<lparr>photos := photos d @ [p]\<rparr>))"
    if "photo_id p = ?pid" for p ts
    using calculation[OF that] that by (intro wf_tags_set) simp_all
  ultimately show ?thesis
    using w by (simp add: photo_serializer_create_def Let_def split: option.splits sum.splits)
qed

lemma wf_photo_serializer_update:
  assumes "wf_db d" and "photo_id inst \<in> set (map photo_id (photos d))"
  shows "wf_db (snd (photo_serializer_update inst v d))"
proof (cases "tag_ids_storable (pf_tag_ids v)")
  case False
  with assms(1) show ?thesis
    by (simp add: photo_serializer_update_overflow)
next
  case True
  define d1 where "d1 = (case pf_tag_ids v of
      None \<Rightarrow> d
    | Some tag_ids \<Rightarrow>
        tags_set (photo_id inst) (filter (\<lambda>t. tag_id t \<in> set tag_ids) (tags d)) d)"
  define p where "p = inst\<lparr>photo_title := supplied (pf_title v) (photo_title inst),
      photo_description := supplied (pf_description v) (photo_description inst),
      photo_image := supplied (pf_image v) (photo_image inst),
      photo_album := supplied (pf_album v) (photo_album inst)\<rparr>"
  have w1: "wf_db d1"
    using assms by (simp add: d1_def wf_tags_set split: option.splits)
  have ph: "photos d1 = photos d"
    by (simp add: d1_def photos_tags_set split: option.splits)
  have pid: "photo_id p = photo_id inst"
    by (simp add: p_def)
  have "snd (photo_serializer_update inst v d)
          = d1\<lparr>photos := map (\<lambda>x. if photo_id x = photo_id inst then p else x) (photos d1)\<rparr>"
    by (simp add: photo_serializer_update_storable[OF True] Let_def d1_def[symmetric]
        p_def[symmetric] ph)
  moreover have "wf_db (d1\<lparr>photos := map (\<lambda>x. if photo_id x = photo_id inst then p else x)
      (photos d1)\<rparr>)"
    using w1 pid by (simp add: wf_db_def map_pk_replace image_pk_replace)
  ultimately show ?thesis by simp
qed

lemma wf_delete_photos: "wf_db d \<Longrightarrow> wf_db (delete_photos pids d)"
  by (auto simp: wf_db_def delete_photos_def distinct_map_filter)

lemma wf_delete_albums: "wf_db d \<Longrightarrow> wf_db (delete_albums aids d)"
  by (auto simp: wf_db_def delete_albums_def distinct_map_filter)

lemma wf_photo_delete: "wf_db d \<Longrightarrow> wf_db (photo_delete pid d)"
  by (simp add: photo_delete_def wf_delete_photos)

lemma wf_album_delete: "wf_db d \<Longrightarrow> wf_db (album_delete aid d)"
  by (simp add: album_delete_def Let_def wf_delete_photos wf_delete_albums)

lemma wf_user_delete: "wf_db d \<Longrightarrow> wf_db (user_delete uid d)"
proof -
  assume "wf_db d"
  then have "wf_db (delete_albums as (delete_photos ps d))" for as ps
    by (intro wf_delete_albums wf_delete_photos)
  then show ?thesis
    by (simp add: user_delete_def Let_def wf_db_def distinct_map_filter)
qed

lemma wf_sample_db: "wf_db sample_db"
  by (simp add: wf_db_def sample_defs)

text \<open>Every request leaves a well-formed storage well-formed.\<close>

lemma wf_user_requests:
  assumes "wf_db d"
  shows "wf_db (snd (user_create for_user fv now creds ub d))"
    and "wf_db (snd (user_update fv request_user pk ub d))"
    and "wf_db (snd (user_destroy request_user pk d))"
  using assms wf_user_serializer_create[OF assms] wf_user_serializer_update[OF assms]
    wf_user_delete[OF assms]
  by (auto simp: user_create_def user_update_def user_destroy_def split_beta Let_def
      split: sum.splits)

lemma wf_album_requests:
  assumes "wf_db d"
  shows "wf_db (snd (album_create fv now request_user ab d))"
    and "wf_db (snd (album_update fv now request_user pk ab d))"
    and "wf_db (snd (album_destroy request_user pk d))"
  using assms wf_album_serializer_save[OF assms] wf_album_serializer_update[OF assms]
    wf_album_delete[OF assms]
  by (auto simp: album_create_def album_perform_create_def album_update_def album_destroy_def
      split_beta Let_def split: sum.splits option.splits)

lemma wf_photo_requests:
  assumes "wf_db d"
  shows "wf_db (snd (photo_create fv now request_user pb d))"
    and "wf_db (snd (photo_update fv request_user pk pb d))"
    and "wf_db (snd (photo_destroy request_user pk d))"
proof -
  show "wf_db (snd (photo_create fv now request_user pb d))"
    using assms wf_photo_serializer_create[OF assms]
    by (auto simp: photo_create_def photo_perform_create_def split: sum.splits option.splits prod.splits)
       (metis snd_conv)+
  show "wf_db (snd (photo_update fv request_user pk pb d))"
  proof (cases request_user)
    case None then show ?thesis using assms by (simp add: photo_update_def)
  next
    case (Some u)
    show ?thesis
    proof (cases "get_object photo_id (photo_get_queryset u d) pk")
      case (Inl e) with Some assms show ?thesis by (simp add: photo_update_def)
    next
      case (Inr inst)
      then have "inst \<in> set (photos d)"
        by (auto dest!: get_object_Inr simp: photo_get_queryset_def)
      then have "wf_db (snd (photo_serializer_update inst v d))" for v
        using assms by (intro wf_photo_serializer_update) simp_all
      with Some Inr assms show ?thesis
        by (auto simp: photo_update_def split: sum.splits prod.splits) (metis snd_conv)+
    qed
  qed
  show "wf_db (snd (photo_destroy request_user pk d))"
    using assms wf_photo_delete[OF assms]
    by (auto simp: photo_destroy_def split: sum.splits option.splits)
qed

end
